theory Spec2Isabelle
  imports Main "HOL-Library.Multiset"
begin


section \<open>EasyElective: the election engine of easyelective.py\<close>

text \<open>
  A shallow embedding of \<^verbatim>\<open>src/easyelective.py\<close>. Python strings are byte strings
  (\<open>string\<close>, UTF-8), exceptions are values of \<open>exn\<close>, the portal is an oracle
  \<open>net\<close> that answers the k-th HTTP exchange of a run, and every function returns
  its result together with the number of exchanges made so far and the log records it
  wrote.
\<close>

subsection \<open>Exceptions\<close>

text \<open>
  The four exception classes of the program, and the Python exceptions of the
  interpreter and of the \<^verbatim>\<open>requests\<close> library that its statements can raise.
\<close>

datatype exn =
    AuthenticationError
  | NetworkError
  | SessionExpiredError
  | IllegalOperationError
  | RequestException
  | ValueError
  | KeyError
  | AttributeError
  | TypeError
  | IndexError
  | RecursionError
  | UnboundLocalError

subsection \<open>Data\<close>

text \<open>\<^verbatim>\<open>Course = namedtuple("Course", [...])\<close>\<close>

record course =
  name :: string
  classID :: string
  college :: string
  max_slots :: int
  used_slots :: int
  elect_address :: string

text \<open>
  A row of \<^verbatim>\<open>targets.csv\<close> as \<^verbatim>\<open>csv.DictReader\<close> yields it, for the header
  \<^verbatim>\<open>courseName,classID,college\<close>: \<^verbatim>\<open>target["courseName"]\<close> is \<open>courseName t\<close>.
\<close>

record target =
  courseName :: string
  t_classID :: string
  t_college :: string

text \<open>
  A \<^verbatim>\<open>requests.Session\<close> object with the two headers set. Every call of
  \<^verbatim>\<open>get_elective_session\<close> makes a new object; \<open>serial\<close> tells them apart (the
  number of exchanges made before the object was created). The cookies of a session
  are kept by the portal, which the oracle stands for.
\<close>

record session =
  serial :: nat
  referer :: string
  user_agent :: string

definition new_session :: "nat \<Rightarrow> session" where
  "new_session k = \<lparr>
     serial = k,
     referer = ''http://elective.pku.edu.cn/elective2008/edu/pku/stu/elective/controller/help/HelpController.jpf'',
     user_agent = ''Mozilla/5.0 (Windows NT 10.0; Win64; x64) AppleWebKit/537.36 (KHTML, like Gecko) Chrome/69.0.3497.100 Safari/537.36'' \<rparr>"

subsection \<open>The portal\<close>

text \<open>
  What \<^verbatim>\<open>resp.json()\<close> returns: a JSON object, looked up by key, or another JSON
  value. A field is a JSON string or some other value.
\<close>

datatype jvalue = JString string | JOther

datatype jbody = JObject "string \<Rightarrow> jvalue option" | JNotObject

text \<open>
  A cell \<^verbatim>\<open>td.datagrid\<close> of the course table: its text and what
  \<^verbatim>\<open>find("a")\<close> gives inside it.
\<close>

datatype anchor = NoAnchor | AnchorNoHref | Anchor string

record cell =
  cell_text :: string
  cell_a :: anchor

text \<open>
  A response, seen through the accessors the program uses: \<open>json = None\<close> when the
  body is not JSON (\<^verbatim>\<open>resp.json()\<close> raises a \<^verbatim>\<open>ValueError\<close>), \<open>datagrid\<close> the
  rows of \<^verbatim>\<open>soup.find("table", class_="datagrid")\<close> or \<open>None\<close> when there is no such
  table, \<open>msgTips\<close> the text of the element with that id, when there is one.
\<close>

record response =
  status_code :: int
  content :: string
  json :: "jbody option"
  datagrid :: "cell list list option"
  msgTips :: "string option"

datatype reply = TransportFailure | Reply response

text \<open>
  A request: the session it is sent through (\<open>None\<close> for \<^verbatim>\<open>requests.post\<close>), the
  URL, and the parameters or the form.
\<close>

datatype request =
    GET "session option" string "(string \<times> jvalue) list"
  | POST "session option" string "(string \<times> string) list"

text \<open>
  The environment of a run: \<open>net k rq\<close> is the answer to request \<open>rq\<close> when it is the
  k-th exchange of the run (\<open>TransportFailure\<close>: the call raises a
  \<^verbatim>\<open>requests.exceptions.RequestException\<close>); \<open>recognize_captcha\<close> and \<open>urljoin\<close>
  are the imported functions of those names, and \<open>urljoin\<close> may raise (it raises
  \<^verbatim>\<open>ValueError\<close> on some malformed URLs). Three fields stand for the interpreter:
  \<open>int_non_ascii s\<close> is what \<^verbatim>\<open>int(s)\<close> returns for a string with a character
  outside ASCII (\<open>None\<close>: it raises \<^verbatim>\<open>ValueError\<close>), \<open>int_max_str_digits\<close> is
  \<^verbatim>\<open>sys.get_int_max_str_digits()\<close> (0: no limit), and \<open>recursion_limit\<close> is the
  number of nested activations of \<^verbatim>\<open>solve_captcha\<close> in which the stack still has room
  for the requests.
\<close>

record env =
  net :: "nat \<Rightarrow> request \<Rightarrow> reply"
  recognize_captcha :: "string \<Rightarrow> string"
  urljoin :: "string \<Rightarrow> string \<Rightarrow> exn + string"
  int_non_ascii :: "string \<Rightarrow> int option"
  int_max_str_digits :: nat
  recursion_limit :: nat

subsection \<open>Log records\<close>

text \<open>
  One constructor for each \<^verbatim>\<open>logger\<close> call of the source, with the values its
  message interpolates, and \<open>Sleep\<close> for \<^verbatim>\<open>sleep(10)\<close>. Two further records have no
  line in the source: \<open>Visit t\<close> marks that the \<^verbatim>\<open>for\<close> statement bound
  \<^verbatim>\<open>target\<close> to \<open>t\<close>, and \<open>Removed t\<close> that a call \<^verbatim>\<open>targets.remove(t)\<close> returned.
\<close>

datatype event =
    D_attempt_iaaa
  | D_got_iaaa
  | D_attempt_session
  | D_got_session
  | D_attempt_courses
  | D_network_courses
  | I_parse_failed
  | D_attempt_captcha
  | I_attempt_elect string
  | I_elected string
  | I_elect_failed string string
  | I_version
  | I_got_session
  | C_authentication
  | I_login_retry
  | D_refresh
  | W_not_found string
  | I_discovered string string int int
  | W_session_expired
  | W_illegal string
  | W_network
  | I_no_more_targets
  | Sleep nat
  | Visit target
  | Removed target

type_synonym 'a result = "(exn + 'a) \<times> nat \<times> event list"

subsection \<open>Builtins\<close>

text \<open>
  \<^verbatim>\<open>int(s)\<close> for a string. For a string of ASCII characters: the white space
  around it (tab, line feed, vertical tab, form feed, carriage return, space) is
  dropped, then come an optional sign and decimal digits, with single underscores
  between digits; anything else raises \<^verbatim>\<open>ValueError\<close>, and so do more than 640
  digits when their number exceeds a limit that is set. For a string with other
  characters (decimal digits and spaces of other scripts are accepted too) the result
  is the one the environment gives.
\<close>

definition is_space :: "char \<Rightarrow> bool" where
  "is_space c = (let n = (of_char c :: nat) in n = 32 \<or> (9 \<le> n \<and> n \<le> 13))"

definition is_digit :: "char \<Rightarrow> bool" where
  "is_digit c = (let n = (of_char c :: nat) in 48 \<le> n \<and> n \<le> 57)"

definition digit_val :: "char \<Rightarrow> nat" where
  "digit_val c = of_char c - 48"

definition is_ascii :: "string \<Rightarrow> bool" where
  "is_ascii s = list_all (\<lambda>c. (of_char c :: nat) < 128) s"

definition strip :: "string \<Rightarrow> string" where
  "strip s = rev (dropWhile is_space (rev (dropWhile is_space s)))"

fun parse_digits :: "bool \<Rightarrow> nat \<Rightarrow> string \<Rightarrow> nat option" where
  "parse_digits prev_digit acc [] = (if prev_digit then Some acc else None)"
| "parse_digits prev_digit acc (c # cs) =
     (if is_digit c then parse_digits True (acc * 10 + digit_val c) cs
      else if c = CHR ''_'' \<and> prev_digit then parse_digits False acc cs
      else None)"

definition too_many_digits :: "env \<Rightarrow> nat \<Rightarrow> bool" where
  "too_many_digits e n = (640 < n \<and> 0 < int_max_str_digits e \<and> int_max_str_digits e < n)"

definition int_digits :: "env \<Rightarrow> string \<Rightarrow> exn + nat" where
  "int_digits e cs =
     (case parse_digits False 0 cs of
        None \<Rightarrow> Inl ValueError
      | Some n \<Rightarrow>
          if too_many_digits e (length (filter is_digit cs)) then Inl ValueError else Inr n)"

definition py_int :: "env \<Rightarrow> string \<Rightarrow> exn + int" where
  "py_int e s =
     (if \<not> is_ascii s then
        (case int_non_ascii e s of None \<Rightarrow> Inl ValueError | Some n \<Rightarrow> Inr n)
      else
        (case strip s of
           [] \<Rightarrow> Inl ValueError
         | c # cs \<Rightarrow>
             if c = CHR ''-'' then
               (case int_digits e cs of Inl x \<Rightarrow> Inl x | Inr n \<Rightarrow> Inr (- int n))
             else if c = CHR ''+'' then
               (case int_digits e cs of Inl x \<Rightarrow> Inl x | Inr n \<Rightarrow> Inr (int n))
             else
               (case int_digits e (c # cs) of Inl x \<Rightarrow> Inl x | Inr n \<Rightarrow> Inr (int n))))"

text \<open>\<^verbatim>\<open>s.split("/")\<close>\<close>

fun split_on :: "char \<Rightarrow> string \<Rightarrow> string \<Rightarrow> string list" where
  "split_on sep cur [] = [rev cur]"
| "split_on sep cur (c # cs) =
     (if c = sep then rev cur # split_on sep [] cs else split_on sep (c # cur) cs)"

definition split_slash :: "string \<Rightarrow> string list" where
  "split_slash s = split_on CHR ''/'' [] s"

text \<open>\<^verbatim>\<open>sub in s\<close> for strings\<close>

fun contains :: "string \<Rightarrow> string \<Rightarrow> bool" where
  "contains sub [] = (sub = [])"
| "contains sub (c # cs) = (take (length sub) (c # cs) = sub \<or> contains sub cs)"

text \<open>The two characters of the literal in \<^verbatim>\<open>elect\<close>, U+6210 U+529F, in UTF-8.\<close>

definition success_marker :: string where
  "success_marker = [CHR 0xE6, CHR 0x88, CHR 0x90, CHR 0xE5, CHR 0x8A, CHR 0x9F]"

text \<open>\<^verbatim>\<open>xs.remove(x)\<close>: the first element equal to \<open>x\<close> goes; \<^verbatim>\<open>ValueError\<close> if none is.\<close>

definition py_remove :: "'a \<Rightarrow> 'a list \<Rightarrow> exn + 'a list" where
  "py_remove x xs = (if x \<in> set xs then Inr (remove1 x xs) else Inl ValueError)"

subsection \<open>Session acquisition\<close>

definition iaaa_url :: string where
  "iaaa_url = ''https://iaaa.pku.edu.cn/iaaa/oauthlogin.do''"

definition get_iaaa_token ::
  "env \<Rightarrow> nat \<Rightarrow> string \<Rightarrow> string \<Rightarrow> string \<Rightarrow> string \<Rightarrow> jvalue result" where
  "get_iaaa_token e k appid username password redir =
     (let form = [(''appid'', appid), (''userName'', username), (''password'', password),
                  (''randCode'', ''''), (''smsCode'', ''''), (''otpCode'', ''''),
                  (''redirUrl'', redir)]
      in case net e k (POST None iaaa_url form) of
           TransportFailure \<Rightarrow> (Inl NetworkError, Suc k, [D_attempt_iaaa])
         | Reply r \<Rightarrow>
             (case json r of
                None \<Rightarrow> (Inl ValueError, Suc k, [D_attempt_iaaa])
              | Some JNotObject \<Rightarrow> (Inl TypeError, Suc k, [D_attempt_iaaa])
              | Some (JObject f) \<Rightarrow>
                  (case f ''token'' of
                     None \<Rightarrow> (Inl AuthenticationError, Suc k, [D_attempt_iaaa])
                   | Some token \<Rightarrow> (Inr token, Suc k, [D_attempt_iaaa, D_got_iaaa]))))"

definition login_url :: string where
  "login_url = ''http://elective.pku.edu.cn/elective2008/ssoLogin.do''"

definition get_elective_session :: "env \<Rightarrow> nat \<Rightarrow> string \<Rightarrow> string \<Rightarrow> session result" where
  "get_elective_session e k username password =
     (let session = new_session k;
          appid = ''syllabus'';
          redir = ''http://elective.pku.edu.cn/elective2008/agent4Iaaa.jsp/../ssoLogin.do''
      in case get_iaaa_token e k appid username password redir of
           (Inl x, k1, ev) \<Rightarrow> (Inl x, k1, D_attempt_session # ev)
         | (Inr token, k1, ev) \<Rightarrow>
             (case net e k1 (GET (Some session) login_url [(''token'', token)]) of
                TransportFailure \<Rightarrow> (Inl NetworkError, Suc k1, D_attempt_session # ev)
              | Reply resp \<Rightarrow>
                  if status_code resp \<noteq> 200
                  then (Inl AuthenticationError, Suc k1, D_attempt_session # ev)
                  else (Inr session, Suc k1, D_attempt_session # ev @ [D_got_session])))"

subsection \<open>The course directory\<close>

definition supply_cancel_url :: string where
  "supply_cancel_url = ''http://elective.pku.edu.cn/elective2008/edu/pku/stu/elective/controller/supplement/SupplyCancel.do''"

text \<open>\<^verbatim>\<open>data[i]\<close>\<close>

definition item :: "'a list \<Rightarrow> nat \<Rightarrow> exn + 'a" where
  "item xs i = (if i < length xs then Inr (xs ! i) else Inl IndexError)"

text \<open>
  \<^verbatim>\<open>max_slots, used_slots = (int(s) for s in text.split("/"))\<close>: two values are
  unpacked, and a third, or a part that is no integer, is a \<^verbatim>\<open>ValueError\<close>.
\<close>

definition parse_slots :: "env \<Rightarrow> string \<Rightarrow> exn + int \<times> int" where
  "parse_slots e s =
     (case split_slash s of
        [a, b] \<Rightarrow>
          (case py_int e a of
             Inl x \<Rightarrow> Inl x
           | Inr m \<Rightarrow> (case py_int e b of Inl x \<Rightarrow> Inl x | Inr u \<Rightarrow> Inr (m, u)))
      | _ \<Rightarrow> Inl ValueError)"

text \<open>The body of the loop over the rows: one \<open>Course\<close> from the cells of a row.\<close>

definition parse_row :: "env \<Rightarrow> cell list \<Rightarrow> exn + course" where
  "parse_row e data =
     (case item data 0 of Inl x \<Rightarrow> Inl x | Inr d0 \<Rightarrow>
     (case item data 5 of Inl x \<Rightarrow> Inl x | Inr d5 \<Rightarrow>
     (case item data 6 of Inl x \<Rightarrow> Inl x | Inr d6 \<Rightarrow>
     (case item data 9 of Inl x \<Rightarrow> Inl x | Inr d9 \<Rightarrow>
     (case parse_slots e (cell_text d9) of Inl x \<Rightarrow> Inl x | Inr (m, u) \<Rightarrow>
     (case item data 10 of Inl x \<Rightarrow> Inl x | Inr d10 \<Rightarrow>
     (case cell_a d10 of
        NoAnchor \<Rightarrow> Inl TypeError
      | AnchorNoHref \<Rightarrow> Inl KeyError
      | Anchor href \<Rightarrow>
          (case urljoin e ''http://elective.pku.edu.cn'' href of
             Inl x \<Rightarrow> Inl x
           | Inr address \<Rightarrow>
               Inr \<lparr> name = cell_text d0, classID = cell_text d5, college = cell_text d6,
                     max_slots = m, used_slots = u, elect_address = address \<rparr>))))))))"

fun parse_rows :: "env \<Rightarrow> cell list list \<Rightarrow> course list \<Rightarrow> exn + course list" where
  "parse_rows e [] courses = Inr courses"
| "parse_rows e (data # items) courses =
     (case parse_row e data of
        Inl x \<Rightarrow> Inl x
      | Inr c \<Rightarrow> parse_rows e items (courses @ [c]))"

definition get_courses :: "env \<Rightarrow> nat \<Rightarrow> session \<Rightarrow> course list result" where
  "get_courses e k session =
     (case net e k (GET (Some session) supply_cancel_url []) of
        TransportFailure \<Rightarrow> (Inl NetworkError, Suc k, [D_attempt_courses, D_network_courses])
      | Reply resp \<Rightarrow>
          (case datagrid resp of
             None \<Rightarrow> (Inl SessionExpiredError, Suc k, [D_attempt_courses, I_parse_failed])
           | Some items \<Rightarrow>
               (case parse_rows e items [] of
                  Inr courses \<Rightarrow> (Inr courses, Suc k, [D_attempt_courses])
                | Inl x \<Rightarrow>
                    if x = ValueError \<or> x = AttributeError
                    then (Inl SessionExpiredError, Suc k, [D_attempt_courses, I_parse_failed])
                    else (Inl x, Suc k, [D_attempt_courses]))))"

subsection \<open>The CAPTCHA challenge\<close>

definition request_captcha_url :: string where
  "request_captcha_url = ''http://elective.pku.edu.cn/elective2008/DrawServlet''"

definition submit_url :: string where
  "submit_url = ''http://elective.pku.edu.cn/elective2008/edu/pku/stu/elective/controller/supplement/validate.do''"

text \<open>
  \<^verbatim>\<open>solve_captcha\<close> calls itself when the answer is refused. The first argument is
  the number of activations for whose requests the stack still has room; with none
  left the activation writes its log record and raises \<^verbatim>\<open>RecursionError\<close> before
  its first request is sent. The recursive call stands inside the \<^verbatim>\<open>try\<close>, so a
  \<^verbatim>\<open>ValueError\<close> leaving it would be turned into \<^verbatim>\<open>SessionExpiredError\<close> too.
\<close>

fun solve_captcha :: "nat \<Rightarrow> env \<Rightarrow> nat \<Rightarrow> session \<Rightarrow> unit result" where
  "solve_captcha 0 e k session = (Inl RecursionError, k, [D_attempt_captcha])"
| "solve_captcha (Suc d) e k session =
     (case net e k (GET (Some session) request_captcha_url []) of
        TransportFailure \<Rightarrow> (Inl RequestException, Suc k, [D_attempt_captcha])
      | Reply img \<Rightarrow>
          (let result = recognize_captcha e (content img)
           in case net e (Suc k) (POST (Some session) submit_url [(''validCode'', result)]) of
                TransportFailure \<Rightarrow> (Inl RequestException, Suc (Suc k), [D_attempt_captcha])
              | Reply resp \<Rightarrow>
                  (case json resp of
                     None \<Rightarrow> (Inl SessionExpiredError, Suc (Suc k), [D_attempt_captcha])
                   | Some JNotObject \<Rightarrow> (Inl TypeError, Suc (Suc k), [D_attempt_captcha])
                   | Some (JObject f) \<Rightarrow>
                       (case f ''valid'' of
                          None \<Rightarrow> (Inl KeyError, Suc (Suc k), [D_attempt_captcha])
                        | Some v \<Rightarrow>
                            if v \<noteq> JString ''2'' then
                              (case solve_captcha d e (Suc (Suc k)) session of
                                 (Inl x, k', ev) \<Rightarrow>
                                   (Inl (if x = ValueError then SessionExpiredError else x),
                                    k', D_attempt_captcha # ev)
                               | (Inr u, k', ev) \<Rightarrow> (Inr (), k', D_attempt_captcha # ev))
                            else (Inr (), Suc (Suc k), [D_attempt_captcha])))))"

subsection \<open>The election attempt\<close>

definition elect :: "env \<Rightarrow> nat \<Rightarrow> session \<Rightarrow> course \<Rightarrow> unit result" where
  "elect e k session c =
     (case solve_captcha (recursion_limit e) e k session of
        (Inl x, k1, ev) \<Rightarrow> (Inl x, k1, I_attempt_elect (name c) # ev)
      | (Inr u, k1, ev) \<Rightarrow>
          (case net e k1 (GET (Some session) (elect_address c) []) of
             TransportFailure \<Rightarrow> (Inl RequestException, Suc k1, I_attempt_elect (name c) # ev)
           | Reply resp \<Rightarrow>
               (case msgTips resp of
                  None \<Rightarrow> (Inl SessionExpiredError, Suc k1, I_attempt_elect (name c) # ev)
                | Some msg \<Rightarrow>
                    if contains success_marker msg
                    then (Inr (), Suc k1, I_attempt_elect (name c) # ev @ [I_elected (name c)])
                    else (Inl IllegalOperationError, Suc k1,
                          I_attempt_elect (name c) # ev @ [I_elect_failed (name c) msg]))))"

subsection \<open>The election loop\<close>

text \<open>
  The local variables of \<^verbatim>\<open>main\<close> that the loop changes (\<open>None\<close>: not bound yet),
  and \<open>clock\<close>, the number of HTTP exchanges made so far.
\<close>

record state =
  targets :: "target list"
  target :: "target option"
  sess :: "session option"
  session_expired :: bool
  clock :: nat

text \<open>The three conditions of the list comprehension, in the order they are evaluated.\<close>

definition matches :: "env \<Rightarrow> course \<Rightarrow> target \<Rightarrow> exn + bool" where
  "matches e c t =
     (if name c = courseName t then
        (case py_int e (classID c) of
           Inl x \<Rightarrow> Inl x
         | Inr a \<Rightarrow>
             (case py_int e (t_classID t) of
                Inl x \<Rightarrow> Inl x
              | Inr b \<Rightarrow> Inr (a = b \<and> college c = t_college t)))
      else Inr False)"

fun search_result :: "env \<Rightarrow> course list \<Rightarrow> target \<Rightarrow> exn + course list" where
  "search_result e [] t = Inr []"
| "search_result e (c # courses) t =
     (case matches e c t of
        Inl x \<Rightarrow> Inl x
      | Inr b \<Rightarrow>
          (case search_result e courses t of
             Inl x \<Rightarrow> Inl x
           | Inr rs \<Rightarrow> Inr (if b then c # rs else rs)))"

text \<open>
  \<^verbatim>\<open>for course in search_result\<close>, for the target \<open>t\<close>. The first component of the
  result is the exception that ended the loop, if one did.
\<close>

fun elect_matches ::
  "env \<Rightarrow> session \<Rightarrow> target \<Rightarrow> course list \<Rightarrow> state \<Rightarrow> exn option \<times> state \<times> event list" where
  "elect_matches e s t [] st = (None, st, [])"
| "elect_matches e s t (c # cs) st =
     (if used_slots c < max_slots c then
        (case elect e (clock st) s c of
           (Inl x, k, ev) \<Rightarrow>
             (Some x, st\<lparr>clock := k\<rparr>,
              I_discovered (name c) (classID c) (max_slots c) (used_slots c) # ev)
         | (Inr u, k, ev) \<Rightarrow>
             (case py_remove t (targets st) of
                Inl x \<Rightarrow>
                  (Some x, st\<lparr>clock := k\<rparr>,
                   I_discovered (name c) (classID c) (max_slots c) (used_slots c) # ev)
              | Inr ts \<Rightarrow>
                  (case elect_matches e s t cs (st\<lparr>clock := k, targets := ts\<rparr>) of
                     (r, st', ev') \<Rightarrow>
                       (r, st',
                        I_discovered (name c) (classID c) (max_slots c) (used_slots c) # ev
                          @ Removed t # ev'))))
      else elect_matches e s t cs st)"

text \<open>The body of \<^verbatim>\<open>for target in targets\<close>, for the target \<open>t\<close>.\<close>

definition visit ::
  "env \<Rightarrow> session \<Rightarrow> course list \<Rightarrow> target \<Rightarrow> state \<Rightarrow> exn option \<times> state \<times> event list" where
  "visit e s courses t st =
     (case search_result e courses t of
        Inl x \<Rightarrow> (Some x, st, [])
      | Inr rs \<Rightarrow>
          if rs = [] then
            (case py_remove t (targets st) of
               Inl x \<Rightarrow> (Some x, st, [W_not_found (courseName t)])
             | Inr ts \<Rightarrow>
                 (case elect_matches e s t rs (st\<lparr>targets := ts\<rparr>) of
                    (r, st', ev) \<Rightarrow> (r, st', W_not_found (courseName t) # Removed t # ev)))
          else elect_matches e s t rs st)"

text \<open>
  \<^verbatim>\<open>for target in targets\<close>: the list iterator keeps an index into the list, which
  the body may have shortened; the loop ends when the index reaches its length.
\<close>

function scan ::
  "env \<Rightarrow> session \<Rightarrow> course list \<Rightarrow> nat \<Rightarrow> state \<Rightarrow> exn option \<times> state \<times> event list" where
  "scan e s courses i st =
     (if i < length (targets st) then
        (let t = targets st ! i in
         case visit e s courses t (st\<lparr>target := Some t\<rparr>) of
           (Some x, st1, ev) \<Rightarrow> (Some x, st1, Visit t # ev)
         | (None, st1, ev) \<Rightarrow>
             (case scan e s courses (Suc i) st1 of
                (r, st2, ev2) \<Rightarrow> (r, st2, Visit t # ev @ ev2)))
      else (None, st, []))"
  by pat_completeness auto
termination
proof (relation "measure (\<lambda>(e, s, courses, i, st). length (targets st) - i)")
  show "wf (measure (\<lambda>(e, s, courses, i, st). length (targets st) - i))"
    by simp
next
  fix e :: env and s :: session and courses :: "course list" and i :: nat and st :: state
    and t :: target and r :: "exn option" and rest :: "state \<times> event list"
    and st1 :: state and ev :: "event list"
  assume i: "i < length (targets st)"
    and v: "(r, rest) = visit e s courses t (st\<lparr>target := Some t\<rparr>)"
    and rest: "(st1, ev) = rest"
  have em: "length (targets (fst (snd (elect_matches e s t cs st0)))) \<le> length (targets st0)"
    for cs st0
  proof (induction cs arbitrary: st0)
    case Nil
    show ?case by simp
  next
    case (Cons c cs)
    show ?case
    proof (cases "used_slots c < max_slots c")
      case False
      then show ?thesis using Cons.IH [of st0] by simp
    next
      case True
      obtain ro k ev0 where el: "elect e (clock st0) s c = (ro, k, ev0)"
        by (cases "elect e (clock st0) s c") auto
      show ?thesis
      proof (cases ro)
        case (Inl x)
        then show ?thesis using True el by simp
      next
        case (Inr u)
        show ?thesis
        proof (cases "t \<in> set (targets st0)")
          case False
          then show ?thesis using True el Inr by (simp add: py_remove_def)
        next
          case mem: True
          obtain r' st' ev' where rec: "elect_matches e s t cs
              (st0\<lparr>clock := k, targets := remove1 t (targets st0)\<rparr>) = (r', st', ev')"
            by (cases "elect_matches e s t cs
              (st0\<lparr>clock := k, targets := remove1 t (targets st0)\<rparr>)") auto
          have "length (targets st') \<le> length (remove1 t (targets st0))"
            using Cons.IH [of "st0\<lparr>clock := k, targets := remove1 t (targets st0)\<rparr>"] rec
            by simp
          also have "\<dots> \<le> length (targets st0)"
            by (simp add: length_remove1)
          finally show ?thesis
            using True el Inr mem rec by (simp add: py_remove_def)
        qed
      qed
    qed
  qed
  have "length (targets (fst (snd (visit e s courses t (st\<lparr>target := Some t\<rparr>)))))
          \<le> length (targets st)"
  proof (cases "search_result e courses t")
    case (Inl x)
    then show ?thesis by (simp add: visit_def)
  next
    case (Inr rs)
    show ?thesis
    proof (cases "rs = []")
      case False
      then show ?thesis using Inr em [of rs "st\<lparr>target := Some t\<rparr>"] by (simp add: visit_def)
    next
      case True
      then show ?thesis using Inr
        by (simp add: visit_def py_remove_def length_remove1)
    qed
  qed
  then have "length (targets st1) \<le> length (targets st)"
    using v rest by (metis fst_conv snd_conv)
  then show "((e, s, courses, Suc i, st1), (e, s, courses, i, st))
      \<in> measure (\<lambda>(e, s, courses, i, st). length (targets st) - i)"
    using i by simp
qed

text \<open>
  One pass of the body of \<^verbatim>\<open>while targets\<close> after the login loop: the
  \<^verbatim>\<open>try\<close> block, its three handlers and the \<^verbatim>\<open>sleep(10)\<close>. An exception that no
  handler takes leaves \<^verbatim>\<open>main\<close>; it is the first component of the result.
\<close>

definition try_block :: "env \<Rightarrow> session \<Rightarrow> state \<Rightarrow> exn option \<times> state \<times> event list" where
  "try_block e s st =
     (case get_courses e (clock st) s of
        (Inl x, k, ev) \<Rightarrow> (Some x, st\<lparr>clock := k\<rparr>, ev)
      | (Inr courses, k, ev) \<Rightarrow>
          (case scan e s courses 0 (st\<lparr>clock := k\<rparr>) of
             (r, st', ev') \<Rightarrow> (r, st', ev @ ev')))"

definition handlers :: "exn option \<times> state \<times> event list \<Rightarrow> exn option \<times> state \<times> event list" where
  "handlers outcome =
     (case outcome of
        (None, st, ev) \<Rightarrow> (None, st, ev)
      | (Some x, st, ev) \<Rightarrow>
          if x = SessionExpiredError then
            (None, st\<lparr>session_expired := True\<rparr>, ev @ [W_session_expired])
          else if x = IllegalOperationError then
            (case target st of
               None \<Rightarrow> (Some UnboundLocalError, st, ev)
             | Some t \<Rightarrow>
                 (case py_remove t (targets st) of
                    Inl y \<Rightarrow> (Some y, st, ev @ [W_illegal (courseName t)])
                  | Inr ts \<Rightarrow>
                      (None, st\<lparr>targets := ts\<rparr>, ev @ [W_illegal (courseName t), Removed t])))
          else if x = NetworkError then (None, st, ev @ [W_network])
          else (Some x, st, ev))"

definition iteration :: "env \<Rightarrow> state \<Rightarrow> exn option \<times> state \<times> event list" where
  "iteration e st =
     (case sess st of
        None \<Rightarrow> (Some UnboundLocalError, st, [D_refresh])
      | Some s \<Rightarrow>
          (case handlers (try_block e s st) of
             (Some x, st', ev) \<Rightarrow> (Some x, st', D_refresh # ev)
           | (None, st', ev) \<Rightarrow> (None, st', D_refresh # ev @ [Sleep 10])))"

text \<open>
  How a run ends: \<^verbatim>\<open>main\<close> returns after its last line, \<^verbatim>\<open>sys.exit(1)\<close>, or an
  exception reaches \<^verbatim>\<open>@logger.catch\<close>. The loops may run forever, so they are
  given a number of rounds; \<open>OutOfFuel\<close> says that the rounds were used up with the
  loop still running, \<open>Continue\<close> that the login loop ended and \<^verbatim>\<open>main\<close> goes on.
\<close>

datatype status = Continue | OutOfFuel | Returned | SysExit int | Caught exn

text \<open>\<^verbatim>\<open>while session_expired\<close>\<close>

fun login_loop ::
  "nat \<Rightarrow> env \<Rightarrow> string \<Rightarrow> string \<Rightarrow> state \<Rightarrow> status \<times> state \<times> event list" where
  "login_loop 0 e username password st =
     (if session_expired st then (OutOfFuel, st, []) else (Continue, st, []))"
| "login_loop (Suc n) e username password st =
     (if session_expired st then
        (case get_elective_session e (clock st) username password of
           (Inr s, k, ev) \<Rightarrow>
             (case login_loop n e username password
                     (st\<lparr>sess := Some s, session_expired := False, clock := k\<rparr>) of
                (r, st', ev') \<Rightarrow> (r, st', ev @ I_got_session # ev'))
         | (Inl x, k, ev) \<Rightarrow>
             if x = AuthenticationError then
               (SysExit 1, st\<lparr>clock := k\<rparr>, ev @ [C_authentication])
             else if x = NetworkError then
               (case login_loop n e username password (st\<lparr>clock := k\<rparr>) of
                  (r, st', ev') \<Rightarrow> (r, st', ev @ I_login_retry # Sleep 10 # ev'))
             else (Caught x, st\<lparr>clock := k\<rparr>, ev))
      else (Continue, st, []))"

text \<open>\<^verbatim>\<open>while targets\<close>\<close>

fun main_loop ::
  "nat \<Rightarrow> env \<Rightarrow> string \<Rightarrow> string \<Rightarrow> state \<Rightarrow> status \<times> state \<times> event list" where
  "main_loop 0 e username password st =
     (if targets st \<noteq> [] then (OutOfFuel, st, []) else (Returned, st, [I_no_more_targets]))"
| "main_loop (Suc n) e username password st =
     (if targets st \<noteq> [] then
        (case login_loop (Suc n) e username password st of
           (Continue, st1, ev1) \<Rightarrow>
             (case iteration e st1 of
                (Some x, st2, ev2) \<Rightarrow> (Caught x, st2, ev1 @ ev2)
              | (None, st2, ev2) \<Rightarrow>
                  (case main_loop n e username password st2 of
                     (r, st3, ev3) \<Rightarrow> (r, st3, ev1 @ ev2 @ ev3)))
         | (r, st1, ev1) \<Rightarrow> (r, st1, ev1))
      else (Returned, st, [I_no_more_targets]))"

text \<open>
  \<^verbatim>\<open>main\<close>, for the student ID and password of \<^verbatim>\<open>config.yaml\<close> and the rows of
  \<^verbatim>\<open>targets.csv\<close>.
\<close>

definition initial :: "target list \<Rightarrow> state" where
  "initial rows =
     \<lparr> targets = rows, target = None, sess = None, session_expired = True, clock = 0 \<rparr>"

definition main :: "nat \<Rightarrow> env \<Rightarrow> string \<Rightarrow> string \<Rightarrow> target list \<Rightarrow> status \<times> state \<times> event list" where
  "main fuel e username password rows =
     (case main_loop fuel e username password (initial rows) of
        (r, st, ev) \<Rightarrow> (r, st, I_version # ev))"

subsection \<open>Reading the log\<close>

text \<open>The number of election attempts a log records, and the targets it records as removed.\<close>

fun is_attempt :: "event \<Rightarrow> bool" where
  "is_attempt (I_attempt_elect n) = True"
| "is_attempt _ = False"

definition attempts :: "event list \<Rightarrow> nat" where
  "attempts ev = length (filter is_attempt ev)"

fun is_removed :: "event \<Rightarrow> bool" where
  "is_removed (Removed t) = True"
| "is_removed _ = False"

fun removed :: "event list \<Rightarrow> target list" where
  "removed [] = []"
| "removed (Removed t # ev) = t # removed ev"
| "removed (x # ev) = removed ev"

text \<open>
  The courses a log announces an election attempt for, each by the values the
  message shows, and the targets the scan was at.
\<close>

fun announced :: "event list \<Rightarrow> (string \<times> string \<times> int \<times> int) list" where
  "announced [] = []"
| "announced (I_discovered n cid m u # ev) = (n, cid, m, u) # announced ev"
| "announced (x # ev) = announced ev"

definition label :: "course \<Rightarrow> string \<times> string \<times> int \<times> int" where
  "label c = (name c, classID c, max_slots c, used_slots c)"

fun visited :: "event list \<Rightarrow> target list" where
  "visited [] = []"
| "visited (Visit t # ev) = t # visited ev"
| "visited (x # ev) = visited ev"

text \<open>
  The records that report a terminal outcome for a target, by the course name they
  carry: not found in the directory, elected, or refused by the portal.
\<close>

fun terminal :: "target \<Rightarrow> event \<Rightarrow> bool" where
  "terminal t (W_not_found n) = (n = courseName t)"
| "terminal t (I_elected n) = (n = courseName t)"
| "terminal t (W_illegal n) = (n = courseName t)"
| "terminal t _ = False"

text \<open>
  A log is justified when every removal it records comes directly after the record
  of a terminal outcome for the target removed.
\<close>

definition ok_pair :: "event \<Rightarrow> event \<Rightarrow> bool" where
  "ok_pair p x = (case x of Removed t \<Rightarrow> terminal t p | _ \<Rightarrow> True)"

definition justified :: "event list \<Rightarrow> bool" where
  "justified ev =
     (successively ok_pair ev \<and> (case ev of [] \<Rightarrow> True | x # _ \<Rightarrow> \<not> is_removed x))"

subsection \<open>Sample portals\<close>

text \<open>Replies, table rows and scripted portals for the concrete runs below.\<close>


definition json_reply :: "(string \<Rightarrow> jvalue option) \<Rightarrow> reply" where
  "json_reply f = Reply \<lparr> status_code = 200, content = [], json = Some (JObject f),
     datagrid = None, msgTips = None \<rparr>"

definition html_reply :: "cell list list option \<Rightarrow> string option \<Rightarrow> reply" where
  "html_reply rows msg = Reply \<lparr> status_code = 200, content = [], json = None,
     datagrid = rows, msgTips = msg \<rparr>"

definition token_reply :: reply where
  "token_reply = json_reply [''token'' \<mapsto> JString ''T'']"

definition accepted :: reply where
  "accepted = json_reply [''valid'' \<mapsto> JString ''2'']"

definition td :: "string \<Rightarrow> cell" where
  "td s = \<lparr> cell_text = s, cell_a = NoAnchor \<rparr>"

definition row :: "string \<Rightarrow> string \<Rightarrow> string \<Rightarrow> string \<Rightarrow> cell list" where
  "row nm cid col slots =
     [td nm, td [], td [], td [], td [], td cid, td col, td [], td [], td slots,
      \<lparr> cell_text = [], cell_a = Anchor ''/elect'' \<rparr>]"

definition scripted :: "reply list \<Rightarrow> env" where
  "scripted rs = \<lparr> net = (\<lambda>k rq. if k < length rs then rs ! k else TransportFailure),
     recognize_captcha = (\<lambda>img. ''abcd''), urljoin = (\<lambda>base href. Inr (base @ href)),
     int_non_ascii = (\<lambda>s. None), int_max_str_digits = 4300, recursion_limit = 3 \<rparr>"

definition intro_cs :: target where
  "intro_cs = \<lparr> courseName = ''Intro CS'', t_classID = ''07'', t_college = ''CS'' \<rparr>"

definition algebra :: target where
  "algebra = \<lparr> courseName = ''Algebra'', t_classID = ''1'', t_college = ''Math'' \<rparr>"

definition offering :: "string \<Rightarrow> string \<Rightarrow> string \<Rightarrow> int \<Rightarrow> int \<Rightarrow> course" where
  "offering nm cid col m u =
     \<lparr> name = nm, classID = cid, college = col, max_slots = m, used_slots = u,
       elect_address = ''http://elective.pku.edu.cn/elect'' \<rparr>"

definition logged_in :: "target list \<Rightarrow> state" where
  "logged_in rows =
     \<lparr> targets = rows, target = None, sess = Some (new_session 0), session_expired = False,
       clock = 0 \<rparr>"

text \<open>A run in which everything succeeds: login, directory, challenge, election.\<close>

definition happy_portal :: env where
  "happy_portal = scripted
     [token_reply, html_reply None None,
      html_reply (Some [row ''Intro CS'' ''7'' ''CS'' ''50/49'']) None,
      html_reply None None, accepted, html_reply None (Some success_marker)]"

text \<open>One election attempt from exchange 0 on, with the given last page.\<close>

definition attempt_portal :: "reply \<Rightarrow> env" where
  "attempt_portal page = scripted [html_reply None None, accepted, page]"

text \<open>
  Two targets, each with a free place; the page after the first election attempt
  has no message.
\<close>

definition expiring_portal :: env where
  "expiring_portal = scripted
     [html_reply (Some [row ''Intro CS'' ''7'' ''CS'' ''50/49'',
                        row ''Algebra'' ''1'' ''Math'' ''30/10'']) None,
      html_reply None None, accepted, html_reply None None]"

text \<open>The same directory; the portal refuses the first election.\<close>

definition refusing_portal :: env where
  "refusing_portal = scripted
     [html_reply (Some [row ''Intro CS'' ''7'' ''CS'' ''50/49'',
                        row ''Algebra'' ''1'' ''Math'' ''30/10'']) None,
      html_reply None None, accepted, html_reply None (Some ''full'')]"

text \<open>The directory lists the same course twice, and both elections succeed.\<close>

definition duplicate_portal :: env where
  "duplicate_portal = scripted
     [html_reply (Some [row ''Intro CS'' ''7'' ''CS'' ''50/49'',
                        row ''Intro CS'' ''07'' ''CS'' ''50/49'']) None,
      html_reply None None, accepted, html_reply None (Some success_marker),
      html_reply None None, accepted, html_reply None (Some success_marker)]"

text \<open>Two election attempts from exchange 0 on, both successful.\<close>

definition two_elections_portal :: env where
  "two_elections_portal = scripted
     [html_reply None None, accepted, html_reply None (Some success_marker),
      html_reply None None, accepted, html_reply None (Some success_marker)]"

text \<open>
  The session expires in the first election attempt; the login that follows
  succeeds, and then the network fails.
\<close>

definition relogin_portal :: env where
  "relogin_portal = scripted
     [html_reply (Some [row ''Intro CS'' ''7'' ''CS'' ''50/49'',
                        row ''Algebra'' ''1'' ''Math'' ''30/10'']) None,
      html_reply None None, accepted, html_reply None None,
      token_reply, html_reply None None]"

text \<open>A directory with one full course, and then an empty directory.\<close>

definition shrinking_portal :: env where
  "shrinking_portal = scripted
     [html_reply (Some [row ''Intro CS'' ''7'' ''CS'' ''50/50'']) None,
      html_reply (Some []) None]"

text \<open>A target that no directory below lists.\<close>

definition ghost :: target where
  "ghost = \<lparr> courseName = ''Ghost'', t_classID = ''1'', t_college = ''None'' \<rparr>"

section \<open>Properties\<close>

subsection \<open>Evaluation of the concrete runs\<close>

lemmas fixture_defs = json_reply_def html_reply_def token_reply_def accepted_def
  td_def row_def scripted_def intro_cs_def algebra_def offering_def logged_in_def
  happy_portal_def attempt_portal_def expiring_portal_def refusing_portal_def
  duplicate_portal_def ghost_def two_elections_portal_def relogin_portal_def
  shrinking_portal_def

lemmas program_defs = main_def initial_def iteration_def try_block_def handlers_def visit_def
  get_courses_def get_elective_session_def get_iaaa_token_def elect_def py_remove_def
  parse_row_def parse_slots_def item_def split_slash_def py_int_def int_digits_def
  too_many_digits_def is_ascii_def strip_def is_space_def is_digit_def digit_val_def
  matches_def success_marker_def new_session_def Let_def

subsection \<open>Logs\<close>


lemma removed_append: "removed (xs @ ys) = removed xs @ removed ys"
  by (induction xs rule: removed.induct) simp_all

lemma attempts_append: "attempts (xs @ ys) = attempts xs + attempts ys"
  by (simp add: attempts_def)

lemma justified_Nil: "justified []"
  by (simp add: justified_def)

lemma justified_append:
  assumes "justified xs" and "justified ys"
  shows "justified (xs @ ys)"
proof (cases "xs = [] \<or> ys = []")
  case True
  then show ?thesis using assms by auto
next
  case False
  then obtain y ys' where ys: "ys = y # ys'" by (cases ys) auto
  from False obtain x xs' where xs: "xs = x # xs'" by (cases xs) auto
  have "\<not> is_removed y" using assms(2) ys by (simp add: justified_def)
  then have "ok_pair (last xs) (hd ys)"
    using ys by (cases y) (simp_all add: ok_pair_def)
  moreover have "successively ok_pair xs" "successively ok_pair ys"
    using assms by (simp_all add: justified_def)
  ultimately have "successively ok_pair (xs @ ys)"
    unfolding successively_append_iff by blast
  moreover have "\<not> is_removed (hd (xs @ ys))"
    using assms(1) xs by (simp add: justified_def)
  ultimately show ?thesis
    using xs by (simp add: justified_def)
qed

lemma justified_Cons:
  assumes "\<not> is_removed x" and "justified ys"
  shows "justified (x # ys)"
proof -
  have "justified [x]" using assms(1) by (simp add: justified_def)
  then have "justified ([x] @ ys)" using assms(2) by (rule justified_append)
  then show ?thesis by simp
qed

lemma justified_snoc_removed:
  assumes "justified xs" and "xs \<noteq> []" and "terminal t (last xs)" and "justified ys"
  shows "justified (xs @ Removed t # ys)"
proof -
  obtain x xs' where xs: "xs = x # xs'" using assms(2) by (cases xs) auto
  have sx: "successively ok_pair xs" using assms(1) by (simp add: justified_def)
  have "ok_pair (last xs) (hd [Removed t])"
    using assms(3) by (simp add: ok_pair_def)
  with sx have a: "successively ok_pair (xs @ [Removed t])"
    unfolding successively_append_iff by simp
  have b: "ok_pair (Removed t) y" if "\<not> is_removed y" for y
    using that by (cases y) (simp_all add: ok_pair_def)
  have "successively ok_pair ((xs @ [Removed t]) @ ys)"
  proof (cases ys)
    case Nil
    then show ?thesis using a by simp
  next
    case (Cons y ys')
    then have "\<not> is_removed y" using assms(4) by (simp add: justified_def)
    then have "ok_pair (last (xs @ [Removed t])) (hd ys)"
      using b [of y] Cons by simp
    moreover have "successively ok_pair ys" using assms(4) by (simp add: justified_def)
    ultimately show ?thesis
      using a unfolding successively_append_iff [of ok_pair "xs @ [Removed t]" ys] by blast
  qed
  then have "successively ok_pair (xs @ Removed t # ys)" by simp
  then show ?thesis using xs assms(1) by (simp add: justified_def)
qed

lemma solve_captcha_events:
  "set (snd (snd (solve_captcha d e k s))) \<subseteq> {D_attempt_captcha}"
proof (induction d arbitrary: k)
  case 0
  show ?case by simp
next
  case (Suc d)
  show ?case
    using Suc.IH [of "Suc (Suc k)"]
    by (auto split: reply.splits option.splits jbody.splits prod.splits sum.splits simp: Let_def)
qed

lemma quiet_justified:
  assumes "\<forall>x\<in>set ev. \<not> is_removed x"
  shows "justified ev"
  using assms
proof (induction ev)
  case Nil
  show ?case by (rule justified_Nil)
next
  case (Cons x ev)
  then show ?case by (simp add: justified_Cons)
qed

lemma quiet_removed:
  assumes "\<forall>x\<in>set ev. \<not> is_removed x"
  shows "removed ev = []"
  using assms by (induction ev rule: removed.induct) simp_all

lemma quiet_attempts:
  assumes "\<forall>x\<in>set ev. \<not> is_attempt x"
  shows "attempts ev = 0"
  using assms by (simp add: attempts_def)

lemma elect_events:
  "\<exists>ev. snd (snd (elect e k s c)) = I_attempt_elect (name c) # ev
     \<and> (\<forall>x\<in>set ev. \<not> is_attempt x \<and> \<not> is_removed x)"
proof -
  obtain r k1 ev1 where sc: "solve_captcha (recursion_limit e) e k s = (r, k1, ev1)"
    by (cases "solve_captcha (recursion_limit e) e k s") auto
  have "set ev1 \<subseteq> {D_attempt_captcha}"
    using solve_captcha_events [of "recursion_limit e" e k s] sc by simp
  then have q: "\<forall>x\<in>set ev1. \<not> is_attempt x \<and> \<not> is_removed x"
    by auto
  show ?thesis
    using sc q
    by (auto simp: elect_def split: sum.splits reply.splits option.splits)
qed

lemma elect_success_last:
  assumes "elect e k s c = (Inr u, k', ev)"
  shows "ev \<noteq> [] \<and> last ev = I_elected (name c)"
  using assms
  by (auto simp: elect_def split: sum.splits reply.splits option.splits prod.splits if_splits)

lemma elect_quiet:
  assumes "elect e k s c = (r, k', ev)"
  shows "justified ev" and "removed ev = []" and "attempts ev = 1"
proof -
  obtain ev' where ev: "ev = I_attempt_elect (name c) # ev'"
    and q: "\<forall>x\<in>set ev'. \<not> is_attempt x \<and> \<not> is_removed x"
    using elect_events [of e k s c] assms by auto
  then have nr: "\<forall>x\<in>set ev. \<not> is_removed x" by simp
  show "justified ev" using nr by (rule quiet_justified)
  show "removed ev = []" using nr by (rule quiet_removed)
  show "attempts ev = 1" using ev q by (simp add: attempts_def)
qed

lemma elect_matches_inv:
  assumes "\<forall>c\<in>set rs. name c = courseName t"
  shows "case elect_matches e s t rs st of (r, st', ev) \<Rightarrow>
           justified ev \<and> mset (targets st) = mset (targets st') + mset (removed ev)
           \<and> target st' = target st \<and> sess st' = sess st
           \<and> session_expired st' = session_expired st"
  using assms
proof (induction rs arbitrary: st)
  case Nil
  show ?case by (simp add: justified_Nil)
next
  case (Cons c cs)
  have names: "\<forall>c\<in>set cs. name c = courseName t" and nc: "name c = courseName t"
    using Cons.prems by simp_all
  show ?case
  proof (cases "used_slots c < max_slots c")
    case False
    then show ?thesis using Cons.IH [OF names, of st] by simp
  next
    case True
    let ?d = "I_discovered (name c) (classID c) (max_slots c) (used_slots c)"
    obtain ro k ev0 where el: "elect e (clock st) s c = (ro, k, ev0)"
      by (cases "elect e (clock st) s c") auto
    note q = elect_quiet [OF el]
    have jd: "justified (?d # ev0)" using q(1) by (simp add: justified_Cons)
    show ?thesis
    proof (cases ro)
      case (Inl x)
      then show ?thesis using True el jd q(2) by simp
    next
      case (Inr u)
      show ?thesis
      proof (cases "t \<in> set (targets st)")
        case False
        then show ?thesis using True el Inr jd q(2) by (simp add: py_remove_def)
      next
        case mem: True
        let ?st = "st\<lparr>clock := k, targets := remove1 t (targets st)\<rparr>"
        obtain r' st' ev' where rec: "elect_matches e s t cs ?st = (r', st', ev')"
          by (cases "elect_matches e s t cs ?st") auto
        have ih: "justified ev'" "mset (targets ?st) = mset (targets st') + mset (removed ev')"
          "target st' = target st" "sess st' = sess st" "session_expired st' = session_expired st"
          using Cons.IH [OF names, of ?st] rec by simp_all
        have last: "terminal t (last (?d # ev0))"
          using elect_success_last [of e "clock st" s c u k ev0] el Inr nc by simp
        have j: "justified ((?d # ev0) @ Removed t # ev')"
          using jd _ last ih(1) by (rule justified_snoc_removed) simp
        have "mset (targets st) = add_mset t (mset (remove1 t (targets st)))"
          using mem by simp
        then have m: "mset (targets st) = mset (targets st') + mset (removed ((?d # ev0) @ Removed t # ev'))"
          using ih(2) q(2) by (simp add: removed_append)
        show ?thesis
          using True el Inr mem rec j m ih(3,4,5) by (simp add: py_remove_def)
      qed
    qed
  qed
qed

lemma matches_name:
  assumes "matches e c t = Inr True"
  shows "name c = courseName t"
  using assms by (auto simp: matches_def split: if_splits sum.splits)

lemma search_result_names:
  assumes "search_result e courses t = Inr rs"
  shows "\<forall>c\<in>set rs. name c = courseName t"
  using assms
proof (induction courses arbitrary: rs)
  case Nil
  then show ?case by simp
next
  case (Cons c courses)
  then show ?case
    by (auto split: sum.splits if_splits dest: matches_name)
qed

lemma visit_inv:
  "case visit e s courses t st of (r, st', ev) \<Rightarrow>
     justified ev \<and> mset (targets st) = mset (targets st') + mset (removed ev)
     \<and> target st' = target st \<and> sess st' = sess st
     \<and> session_expired st' = session_expired st"
proof (cases "search_result e courses t")
  case (Inl x)
  then show ?thesis by (simp add: visit_def justified_Nil)
next
  case (Inr rs)
  show ?thesis
  proof (cases "rs = []")
    case False
    then show ?thesis
      using Inr elect_matches_inv [OF search_result_names [OF Inr], where e = e and s = s and st = st]
      by (simp add: visit_def)
  next
    case True
    show ?thesis
    proof (cases "t \<in> set (targets st)")
      case False
      then show ?thesis using Inr True
        by (simp add: visit_def py_remove_def justified_Cons justified_Nil)
    next
      case mem: True
      have j: "justified ([W_not_found (courseName t)] @ Removed t # [])"
        by (rule justified_snoc_removed) (simp_all add: justified_Cons justified_Nil)
      have "mset (targets st) = add_mset t (mset (remove1 t (targets st)))"
        using mem by simp
      then show ?thesis using Inr True mem j
        by (simp add: visit_def py_remove_def)
    qed
  qed
qed

lemma scan_inv:
  "case scan e s courses i st of (r, st', ev) \<Rightarrow>
     justified ev \<and> mset (targets st) = mset (targets st') + mset (removed ev)
     \<and> sess st' = sess st \<and> session_expired st' = session_expired st"
proof (induction e s courses i st rule: scan.induct)
  case (1 e s courses i st)
  show ?case
  proof (cases "i < length (targets st)")
    case False
    then show ?thesis by (simp add: justified_Nil)
  next
    case True
    let ?t = "targets st ! i"
    obtain r st1 ev where v: "visit e s courses ?t (st\<lparr>target := Some ?t\<rparr>) = (r, st1, ev)"
      by (cases "visit e s courses ?t (st\<lparr>target := Some ?t\<rparr>)") auto
    have vi: "justified ev" "mset (targets st) = mset (targets st1) + mset (removed ev)"
      "sess st1 = sess st" "session_expired st1 = session_expired st"
      using visit_inv [where e = e and s = s and courses = courses and t = ?t
          and st = "st\<lparr>target := Some ?t\<rparr>"] v by simp_all
    have jv: "justified (Visit ?t # ev)" using vi(1) by (simp add: justified_Cons)
    show ?thesis
    proof (cases r)
      case (Some x)
      then show ?thesis using True v jv vi by (simp add: scan.simps [of e s courses i st])
    next
      case None
      obtain r2 st2 ev2 where sc: "scan e s courses (Suc i) st1 = (r2, st2, ev2)"
        by (cases "scan e s courses (Suc i) st1") auto
      have "case scan e s courses (Suc i) st1 of (r, st', ev) \<Rightarrow>
          justified ev \<and> mset (targets st1) = mset (targets st') + mset (removed ev)
          \<and> sess st' = sess st1 \<and> session_expired st' = session_expired st1"
        by (rule "1.IH" [of ?t None "(st1, ev)" st1 ev]) (use True v None in simp_all)
      then have ih: "justified ev2" "mset (targets st1) = mset (targets st2) + mset (removed ev2)"
        "sess st2 = sess st1" "session_expired st2 = session_expired st1"
        using sc by simp_all
      have "justified ((Visit ?t # ev) @ ev2)" using jv ih(1) by (rule justified_append)
      then show ?thesis
        using True v None sc vi ih
        by (simp add: scan.simps [of e s courses i st] removed_append)
    qed
  qed
qed

lemma get_courses_quiet:
  "\<forall>x\<in>set (snd (snd (get_courses e k s))). \<not> is_removed x \<and> \<not> is_attempt x"
  by (auto simp: get_courses_def split: reply.splits option.splits sum.splits)

lemma get_elective_session_quiet:
  "\<forall>x\<in>set (snd (snd (get_elective_session e k u p))). \<not> is_removed x \<and> \<not> is_attempt x"
  by (auto simp: get_elective_session_def get_iaaa_token_def Let_def
      split: reply.splits option.splits sum.splits jbody.splits prod.splits)

lemma try_block_inv:
  "case try_block e s st of (r, st', ev) \<Rightarrow>
     justified ev \<and> mset (targets st) = mset (targets st') + mset (removed ev)"
proof -
  obtain ro k ev where gc: "get_courses e (clock st) s = (ro, k, ev)"
    by (cases "get_courses e (clock st) s") auto
  have q: "\<forall>x\<in>set ev. \<not> is_removed x"
    using get_courses_quiet [of e "clock st" s] gc by simp
  note j = quiet_justified [OF q] and r = quiet_removed [OF q]
  show ?thesis
  proof (cases ro)
    case (Inl x)
    then show ?thesis using gc j r by (simp add: try_block_def)
  next
    case (Inr courses)
    obtain r2 st2 ev2 where sc: "scan e s courses 0 (st\<lparr>clock := k\<rparr>) = (r2, st2, ev2)"
      by (cases "scan e s courses 0 (st\<lparr>clock := k\<rparr>)") auto
    have si: "justified ev2" "mset (targets st) = mset (targets st2) + mset (removed ev2)"
      using scan_inv [where e = e and s = s and courses = courses and i = 0
          and st = "st\<lparr>clock := k\<rparr>"] sc by simp_all
    have "justified (ev @ ev2)" using j si(1) by (rule justified_append)
    then show ?thesis using gc Inr sc si(2) r by (simp add: try_block_def removed_append)
  qed
qed

lemma handlers_inv:
  assumes "justified ev"
  shows "case handlers (r, st, ev) of (r', st', ev') \<Rightarrow>
     justified ev' \<and> mset (targets st) + mset (removed ev) = mset (targets st') + mset (removed ev')"
proof (cases r)
  case None
  then show ?thesis using assms by (simp add: handlers_def)
next
  case (Some x)
  have q: "justified (ev @ [y])" if "\<not> is_removed y" for y
    using assms that by (intro justified_append justified_Cons justified_Nil)
  show ?thesis
  proof (cases "x = IllegalOperationError")
    case False
    then show ?thesis using Some assms q [of W_session_expired] q [of W_network]
      by (simp add: handlers_def removed_append)
  next
    case True
    show ?thesis
    proof (cases "target st")
      case None
      then show ?thesis using Some True assms by (simp add: handlers_def)
    next
      case (Some t)
      show ?thesis
      proof (cases "t \<in> set (targets st)")
        case False
        then show ?thesis using \<open>r = Some x\<close> True Some q [of "W_illegal (courseName t)"]
          by (simp add: handlers_def py_remove_def removed_append)
      next
        case mem: True
        have "justified ((ev @ [W_illegal (courseName t)]) @ Removed t # [])"
          by (rule justified_snoc_removed) (simp_all add: q justified_Nil)
        moreover have "mset (targets st) = add_mset t (mset (remove1 t (targets st)))"
          using mem by simp
        ultimately show ?thesis using \<open>r = Some x\<close> True Some mem
          by (simp add: handlers_def py_remove_def removed_append)
      qed
    qed
  qed
qed

lemma iteration_inv:
  "case iteration e st of (r, st', ev) \<Rightarrow>
     justified ev \<and> mset (targets st) = mset (targets st') + mset (removed ev)"
proof (cases "sess st")
  case None
  then show ?thesis by (simp add: iteration_def justified_Cons justified_Nil)
next
  case (Some s)
  obtain r1 st1 ev1 where tb: "try_block e s st = (r1, st1, ev1)"
    by (cases "try_block e s st") auto
  have ti: "justified ev1" "mset (targets st) = mset (targets st1) + mset (removed ev1)"
    using try_block_inv [where e = e and s = s and st = st] tb by simp_all
  obtain r2 st2 ev2 where h: "handlers (r1, st1, ev1) = (r2, st2, ev2)"
    by (cases "handlers (r1, st1, ev1)") auto
  have hi: "justified ev2" "mset (targets st1) + mset (removed ev1) = mset (targets st2) + mset (removed ev2)"
    using handlers_inv [OF ti(1), where r = r1 and st = st1] h by simp_all
  have j1: "justified (D_refresh # ev2)" using hi(1) by (simp add: justified_Cons)
  have "justified ((D_refresh # ev2) @ [Sleep 10])"
    using j1 by (rule justified_append) (simp add: justified_Cons justified_Nil)
  then show ?thesis
    using Some tb h ti(2) hi(2) j1
    by (cases r2) (simp_all add: iteration_def removed_append)
qed

lemma login_loop_inv:
  "case login_loop n e u p st of (r, st', ev) \<Rightarrow>
     (\<forall>x\<in>set ev. \<not> is_removed x \<and> \<not> is_attempt x) \<and> targets st' = targets st"
proof (induction n arbitrary: st)
  case 0
  show ?case by simp
next
  case (Suc n)
  show ?case
  proof (cases "session_expired st")
    case False
    then show ?thesis by simp
  next
    case True
    obtain ro k ev where g: "get_elective_session e (clock st) u p = (ro, k, ev)"
      by (cases "get_elective_session e (clock st) u p") auto
    have q: "\<forall>x\<in>set ev. \<not> is_removed x \<and> \<not> is_attempt x"
      using get_elective_session_quiet [of e "clock st" u p] g by simp
    show ?thesis
    proof (cases ro)
      case (Inr s)
      let ?st = "st\<lparr>sess := Some s, session_expired := False, clock := k\<rparr>"
      obtain r' st' ev' where l: "login_loop n e u p ?st = (r', st', ev')"
        by (cases "login_loop n e u p ?st") auto
      then show ?thesis using True g Inr q Suc.IH [of ?st] by auto
    next
      case (Inl x)
      let ?st = "st\<lparr>clock := k\<rparr>"
      obtain r' st' ev' where l: "login_loop n e u p ?st = (r', st', ev')"
        by (cases "login_loop n e u p ?st") auto
      then show ?thesis using True g Inl q Suc.IH [of ?st] by auto
    qed
  qed
qed

lemma main_loop_inv:
  "case main_loop n e u p st of (r, st', ev) \<Rightarrow>
     justified ev \<and> mset (targets st) = mset (targets st') + mset (removed ev)"
proof (induction n arbitrary: st)
  case 0
  show ?case by (simp add: justified_Nil justified_Cons)
next
  case (Suc n)
  show ?case
  proof (cases "targets st \<noteq> []")
    case False
    then show ?thesis by (simp add: justified_Nil justified_Cons)
  next
    case True
    obtain r1 st1 ev1 where l: "login_loop (Suc n) e u p st = (r1, st1, ev1)"
      by (cases "login_loop (Suc n) e u p st") auto
    have li: "\<forall>x\<in>set ev1. \<not> is_removed x" "targets st1 = targets st"
      using login_loop_inv [where n = "Suc n" and e = e and u = u and p = p and st = st] l by auto
    note j1 = quiet_justified [OF li(1)] and r1 = quiet_removed [OF li(1)]
    show ?thesis
    proof (cases "r1 = Continue")
      case False
      then show ?thesis using True l j1 r1 li(2)
        by (cases r1) (simp_all del: login_loop.simps)
    next
      case c: True
      obtain r2 st2 ev2 where it: "iteration e st1 = (r2, st2, ev2)"
        by (cases "iteration e st1") auto
      have ii: "justified ev2" "mset (targets st1) = mset (targets st2) + mset (removed ev2)"
        using iteration_inv [where e = e and st = st1] it by simp_all
      have j12: "justified (ev1 @ ev2)" using j1 ii(1) by (rule justified_append)
      show ?thesis
      proof (cases r2)
        case (Some x)
        then show ?thesis using True l c it j12 ii(2) li(2) r1
          by (simp add: removed_append del: login_loop.simps)
      next
        case None
        obtain r3 st3 ev3 where m: "main_loop n e u p st2 = (r3, st3, ev3)"
          by (cases "main_loop n e u p st2") auto
        have mi: "justified ev3" "mset (targets st2) = mset (targets st3) + mset (removed ev3)"
          using Suc.IH [of st2] m by simp_all
        have "justified ((ev1 @ ev2) @ ev3)" using j12 mi(1) by (rule justified_append)
        then show ?thesis using True l c it None m ii(2) mi(2) li(2) r1
          by (simp add: removed_append del: login_loop.simps)
      qed
    qed
  qed
qed


lemma search_result_filter:
  assumes "py_int e (t_classID t) = Inr b"
    and "\<forall>c\<in>set courses. name c = courseName t \<longrightarrow> (\<exists>a. py_int e (classID c) = Inr a)"
  shows "search_result e courses t =
     Inr [c \<leftarrow> courses. name c = courseName t \<and> py_int e (classID c) = Inr b
            \<and> college c = t_college t]"
  using assms(2)
proof (induction courses)
  case Nil
  show ?case by simp
next
  case (Cons c courses)
  have ih: "search_result e courses t =
     Inr [c \<leftarrow> courses. name c = courseName t \<and> py_int e (classID c) = Inr b
            \<and> college c = t_college t]"
    using Cons by simp
  show ?case
  proof (cases "name c = courseName t")
    case False
    then show ?thesis using ih by (simp add: matches_def)
  next
    case True
    then obtain a where a: "py_int e (classID c) = Inr a" using Cons.prems by auto
    show ?thesis using True a assms(1) ih by (auto simp: matches_def)
  qed
qed


lemma elect_matches_attempts:
  "attempts (snd (snd (elect_matches e s t rs st))) \<le> length [c \<leftarrow> rs. used_slots c < max_slots c]
   \<and> ([c \<leftarrow> rs. used_slots c < max_slots c] \<noteq> []
        \<longrightarrow> 1 \<le> attempts (snd (snd (elect_matches e s t rs st))))"
proof (induction rs arbitrary: st)
  case Nil
  show ?case by (simp add: attempts_def)
next
  case (Cons c cs)
  show ?case
  proof (cases "used_slots c < max_slots c")
    case False
    then show ?thesis using Cons.IH [of st] by simp
  next
    case True
    obtain ro k ev0 where el: "elect e (clock st) s c = (ro, k, ev0)"
      by (cases "elect e (clock st) s c") auto
    have a: "attempts ev0 = 1" using elect_quiet(3) [OF el] .
    have d: "attempts (x # ev) = attempts ev" if "\<not> is_attempt x" for x ev
      using that by (simp add: attempts_def)
    show ?thesis
    proof (cases ro)
      case (Inl x)
      then show ?thesis using True el a by (simp add: d)
    next
      case (Inr u)
      show ?thesis
      proof (cases "py_remove t (targets st)")
        case (Inl x)
        then show ?thesis using True el Inr a by (simp add: d)
      next
        case r: (Inr ts)
        obtain r' st' ev' where rec:
          "elect_matches e s t cs (st\<lparr>clock := k, targets := ts\<rparr>) = (r', st', ev')"
          by (cases "elect_matches e s t cs (st\<lparr>clock := k, targets := ts\<rparr>)") auto
        have "attempts ev' \<le> length [c \<leftarrow> cs. used_slots c < max_slots c]"
          using Cons.IH [of "st\<lparr>clock := k, targets := ts\<rparr>"] rec by simp
        then show ?thesis using True el Inr r rec a
          by (simp add: d attempts_append)
      qed
    qed
  qed
qed

lemma elect_matches_none:
  assumes "\<forall>c\<in>set rs. \<not> used_slots c < max_slots c"
  shows "elect_matches e s t rs st = (None, st, [])"
  using assms by (induction rs) simp_all

subsection \<open>The scan of the working list\<close>



lemma drop_remove1_subset: "set (drop n (remove1 x xs)) \<subseteq> set (drop n xs)"
proof (induction xs arbitrary: n)
  case Nil
  show ?case by simp
next
  case (Cons y ys)
  show ?case
  proof (cases n)
    case 0
    then show ?thesis using set_remove1_subset [of x "y # ys"] by simp
  next
    case (Suc m)
    show ?thesis
    proof (cases "x = y")
      case True
      then show ?thesis using Suc set_drop_subset_set_drop [of m "Suc m" ys] by simp
    next
      case False
      then show ?thesis using Suc Cons.IH [of m] by simp
    qed
  qed
qed

lemma remove1_at:
  assumes "i < length xs" and "x = xs ! i"
  shows "drop (Suc i) (remove1 x xs) = drop (Suc (Suc i)) xs
         \<and> (Suc i < length xs \<longrightarrow> remove1 x xs ! i = xs ! Suc i)"
  using assms
proof (induction xs arbitrary: i)
  case Nil
  then show ?case by simp
next
  case (Cons y ys)
  show ?case
  proof (cases "x = y")
    case True
    then show ?thesis by simp
  next
    case False
    then obtain j where j: "i = Suc j" using Cons.prems by (cases i) auto
    then show ?thesis using False Cons.IH [of j] Cons.prems by simp
  qed
qed

lemma elect_no_visit: "Visit u \<notin> set (snd (snd (elect e k s c)))"
proof -
  obtain r k1 ev1 where sc: "solve_captcha (recursion_limit e) e k s = (r, k1, ev1)"
    by (cases "solve_captcha (recursion_limit e) e k s") auto
  have "set ev1 \<subseteq> {D_attempt_captcha}"
    using solve_captcha_events [of "recursion_limit e" e k s] sc by simp
  then have "Visit u \<notin> set ev1" by auto
  then show ?thesis
    using sc by (auto simp: elect_def split: sum.splits reply.splits option.splits)
qed

lemma elect_matches_shape:
  "case elect_matches e s t rs st of (r, st', ev) \<Rightarrow>
     (\<forall>u. Visit u \<notin> set ev) \<and> set (removed ev) \<subseteq> {t}
     \<and> (\<forall>n. set (drop n (targets st')) \<subseteq> set (drop n (targets st)))"
proof (induction rs arbitrary: st)
  case Nil
  show ?case by simp
next
  case (Cons c cs)
  show ?case
  proof (cases "used_slots c < max_slots c")
    case False
    then show ?thesis using Cons.IH [of st] by simp
  next
    case True
    obtain ro k ev0 where el: "elect e (clock st) s c = (ro, k, ev0)"
      by (cases "elect e (clock st) s c") auto
    have nv: "\<forall>u. Visit u \<notin> set ev0"
      using elect_no_visit [of _ e "clock st" s c] el by simp
    have nr: "removed ev0 = []" using elect_quiet(2) [OF el] .
    show ?thesis
    proof (cases ro)
      case (Inl x)
      then show ?thesis using True el nv nr by simp
    next
      case (Inr u)
      show ?thesis
      proof (cases "t \<in> set (targets st)")
        case False
        then show ?thesis using True el Inr nv nr by (simp add: py_remove_def)
      next
        case mem: True
        let ?st = "st\<lparr>clock := k, targets := remove1 t (targets st)\<rparr>"
        obtain r' st' ev' where rec: "elect_matches e s t cs ?st = (r', st', ev')"
          by (cases "elect_matches e s t cs ?st") auto
        have ih: "\<forall>u. Visit u \<notin> set ev'" "set (removed ev') \<subseteq> {t}"
          "\<forall>n. set (drop n (targets st')) \<subseteq> set (drop n (remove1 t (targets st)))"
          using Cons.IH [of ?st] rec by simp_all
        have d: "\<forall>n. set (drop n (targets st')) \<subseteq> set (drop n (targets st))"
          using ih(3) drop_remove1_subset [of _ t "targets st"] by blast
        show ?thesis
          using True el Inr mem rec nv nr ih(1,2) d
          by (simp add: py_remove_def removed_append)
      qed
    qed
  qed
qed

lemma visit_shape:
  "case visit e s courses t st of (r, st', ev) \<Rightarrow>
     (\<forall>u. Visit u \<notin> set ev) \<and> set (removed ev) \<subseteq> {t}
     \<and> (\<forall>n. set (drop n (targets st')) \<subseteq> set (drop n (targets st)))"
proof (cases "search_result e courses t")
  case (Inl x)
  then show ?thesis by (simp add: visit_def)
next
  case (Inr rs)
  show ?thesis
  proof (cases "rs = []")
    case False
    then show ?thesis
      using Inr elect_matches_shape [where e = e and s = s and t = t and rs = rs and st = st]
      by (simp add: visit_def)
  next
    case True
    then show ?thesis using Inr drop_remove1_subset [of _ t "targets st"]
      by (simp add: visit_def py_remove_def)
  qed
qed

lemma scan_shape:
  "case scan e s courses i st of (r, st', ev) \<Rightarrow>
     (\<forall>u. Visit u \<in> set ev \<longrightarrow> u \<in> set (drop i (targets st)))
     \<and> (\<forall>u\<in>set (removed ev). Visit u \<in> set ev)"
proof (induction e s courses i st rule: scan.induct)
  case (1 e s courses i st)
  show ?case
  proof (cases "i < length (targets st)")
    case False
    then show ?thesis by simp
  next
    case True
    let ?t = "targets st ! i"
    obtain r st1 ev where v: "visit e s courses ?t (st\<lparr>target := Some ?t\<rparr>) = (r, st1, ev)"
      by (cases "visit e s courses ?t (st\<lparr>target := Some ?t\<rparr>)") auto
    have vs: "\<forall>u. Visit u \<notin> set ev" "set (removed ev) \<subseteq> {?t}"
      "\<forall>n. set (drop n (targets st1)) \<subseteq> set (drop n (targets st))"
      using visit_shape [where e = e and s = s and courses = courses and t = ?t
          and st = "st\<lparr>target := Some ?t\<rparr>"] v by simp_all
    have here: "?t \<in> set (drop i (targets st))"
      using True by (metis Cons_nth_drop_Suc list.set_intros(1))
    show ?thesis
    proof (cases r)
      case (Some x)
      then show ?thesis using True v vs(1,2) here
        by (auto simp: scan.simps [of e s courses i st])
    next
      case None
      obtain r2 st2 ev2 where sc: "scan e s courses (Suc i) st1 = (r2, st2, ev2)"
        by (cases "scan e s courses (Suc i) st1") auto
      have "case scan e s courses (Suc i) st1 of (r, st', ev) \<Rightarrow>
          (\<forall>u. Visit u \<in> set ev \<longrightarrow> u \<in> set (drop (Suc i) (targets st1)))
          \<and> (\<forall>u\<in>set (removed ev). Visit u \<in> set ev)"
        by (rule "1.IH" [of ?t None "(st1, ev)" st1 ev]) (use True v None in simp_all)
      then have ih: "\<forall>u. Visit u \<in> set ev2 \<longrightarrow> u \<in> set (drop (Suc i) (targets st1))"
        "\<forall>u\<in>set (removed ev2). Visit u \<in> set ev2"
        using sc by simp_all
      have sub: "set (drop (Suc i) (targets st1)) \<subseteq> set (drop i (targets st))"
        using vs(3) set_drop_subset_set_drop [of i "Suc i" "targets st"] by fastforce
      show ?thesis
        using True v None sc vs(1,2) here ih sub
        by (auto simp: scan.simps [of e s courses i st] removed_append)
    qed
  qed
qed


subsection \<open>The login loop\<close>

lemma get_elective_session_first:
  "\<exists>ev. snd (snd (get_elective_session e k u p)) = D_attempt_session # ev"
  by (auto simp: get_elective_session_def get_iaaa_token_def Let_def
      split: reply.splits option.splits sum.splits jbody.splits prod.splits)

lemma login_loop_first:
  assumes "session_expired st"
  shows "take 1 (snd (snd (login_loop (Suc n) e u p st))) = [D_attempt_session]"
proof -
  obtain ro k ev where g: "get_elective_session e (clock st) u p = (ro, k, ev)"
    by (cases "get_elective_session e (clock st) u p") auto
  obtain ev' where ev: "ev = D_attempt_session # ev'"
    using get_elective_session_first [of e "clock st" u p] g by auto
  show ?thesis
    using assms g ev by (cases ro) (simp_all split: prod.splits)
qed

lemma main_loop_first:
  assumes "session_expired st" and "targets st \<noteq> []"
  shows "take 1 (snd (snd (main_loop (Suc n) e u p st))) = [D_attempt_session]"
proof -
  obtain r1 st1 ev1 where l: "login_loop (Suc n) e u p st = (r1, st1, ev1)"
    by (cases "login_loop (Suc n) e u p st") auto
  have "take 1 ev1 = [D_attempt_session]"
    using login_loop_first [OF assms(1), of n e u p] l by simp
  then obtain ev1' where ev1: "ev1 = D_attempt_session # ev1'"
    by (cases ev1) auto
  show ?thesis
    using assms(2) l ev1
    by (cases r1) (simp_all del: login_loop.simps split: prod.splits option.splits)
qed


subsection \<open>The courses an attempt is announced for\<close>

lemma elect_no_discovered: "I_discovered n cid m u \<notin> set (snd (snd (elect e k s c)))"
proof -
  obtain r k1 ev1 where sc: "solve_captcha (recursion_limit e) e k s = (r, k1, ev1)"
    by (cases "solve_captcha (recursion_limit e) e k s") auto
  have "set ev1 \<subseteq> {D_attempt_captcha}"
    using solve_captcha_events [of "recursion_limit e" e k s] sc by simp
  then have "I_discovered n cid m u \<notin> set ev1" by auto
  then show ?thesis
    using sc by (auto simp: elect_def split: sum.splits reply.splits option.splits)
qed

lemma elect_matches_discovered:
  assumes "I_discovered n cid m u \<in> set (snd (snd (elect_matches e s t rs st)))"
  shows "u < m"
  using assms
proof (induction rs arbitrary: st)
  case Nil
  then show ?case by simp
next
  case (Cons c cs)
  show ?case
  proof (cases "used_slots c < max_slots c")
    case False
    then show ?thesis using Cons.IH [of st] Cons.prems by simp
  next
    case True
    obtain ro k ev0 where el: "elect e (clock st) s c = (ro, k, ev0)"
      by (cases "elect e (clock st) s c") auto
    have nd: "I_discovered n cid m u \<notin> set ev0"
      using elect_no_discovered [of n cid m u e "clock st" s c] el by simp
    show ?thesis
    proof (cases ro)
      case (Inl x)
      then show ?thesis using True el nd Cons.prems by auto
    next
      case (Inr v)
      show ?thesis
      proof (cases "py_remove t (targets st)")
        case (Inl x)
        then show ?thesis using True el Inr nd Cons.prems by auto
      next
        case r: (Inr ts)
        obtain r' st' ev' where rec:
          "elect_matches e s t cs (st\<lparr>clock := k, targets := ts\<rparr>) = (r', st', ev')"
          by (cases "elect_matches e s t cs (st\<lparr>clock := k, targets := ts\<rparr>)") auto
        have "I_discovered n cid m u \<in> set ev' \<Longrightarrow> u < m"
          using Cons.IH [of "st\<lparr>clock := k, targets := ts\<rparr>"] rec by simp
        then show ?thesis using True el Inr r rec nd Cons.prems by auto
      qed
    qed
  qed
qed

lemma announced_append: "announced (xs @ ys) = announced xs @ announced ys"
  by (induction xs rule: announced.induct) simp_all

lemma quiet_announced:
  assumes "\<forall>n cid m u. I_discovered n cid m u \<notin> set ev"
  shows "announced ev = []"
  using assms
proof (induction ev rule: announced.induct)
  case 1
  show ?case by simp
next
  case (2 n cid m u ev)
  then have False by (metis list.set_intros(1))
  then show ?case ..
qed (simp_all)

lemma elect_announced:
  assumes "elect e k s c = (r, k', ev)"
  shows "announced ev = []"
proof (rule quiet_announced, intro allI)
  fix n cid m u
  show "I_discovered n cid m u \<notin> set ev"
    using elect_no_discovered [of n cid m u e k s c] assms by simp
qed

lemma elect_matches_announced:
  "case elect_matches e s t rs st of (r, st', ev) \<Rightarrow>
     announced ev = map label (take (attempts ev) [c \<leftarrow> rs. used_slots c < max_slots c])
     \<and> attempts ev \<le> length [c \<leftarrow> rs. used_slots c < max_slots c]
     \<and> (r = None \<longrightarrow> attempts ev = length [c \<leftarrow> rs. used_slots c < max_slots c])"
proof (induction rs arbitrary: st)
  case Nil
  show ?case by (simp add: attempts_def)
next
  case (Cons c cs)
  show ?case
  proof (cases "used_slots c < max_slots c")
    case False
    then show ?thesis using Cons.IH [of st] by simp
  next
    case True
    let ?d = "I_discovered (name c) (classID c) (max_slots c) (used_slots c)"
    obtain ro k ev0 where el: "elect e (clock st) s c = (ro, k, ev0)"
      by (cases "elect e (clock st) s c") auto
    have a: "attempts ev0 = 1" using elect_quiet(3) [OF el] .
    have n: "announced ev0 = []" using elect_announced [OF el] .
    have d: "attempts (?d # ev) = attempts ev" for ev
      by (simp add: attempts_def)
    have r: "attempts (Removed t # ev) = attempts ev" for ev
      by (simp add: attempts_def)
    show ?thesis
    proof (cases ro)
      case (Inl x)
      then show ?thesis using True el a n by (simp add: d label_def)
    next
      case (Inr u)
      show ?thesis
      proof (cases "py_remove t (targets st)")
        case (Inl x)
        then show ?thesis using True el Inr a n by (simp add: d label_def)
      next
        case rm: (Inr ts)
        obtain r' st' ev' where rec:
          "elect_matches e s t cs (st\<lparr>clock := k, targets := ts\<rparr>) = (r', st', ev')"
          by (cases "elect_matches e s t cs (st\<lparr>clock := k, targets := ts\<rparr>)") auto
        have ih: "announced ev' = map label (take (attempts ev') [c \<leftarrow> cs. used_slots c < max_slots c])"
          "attempts ev' \<le> length [c \<leftarrow> cs. used_slots c < max_slots c]"
          "r' = None \<longrightarrow> attempts ev' = length [c \<leftarrow> cs. used_slots c < max_slots c]"
          using Cons.IH [of "st\<lparr>clock := k, targets := ts\<rparr>"] rec by simp_all
        show ?thesis using True el Inr rm rec a n ih
          by (simp add: d r attempts_append announced_append label_def)
      qed
    qed
  qed
qed

subsection \<open>An exception in the first attempt of a visit\<close>

lemma elect_matches_skip_full:
  assumes "\<forall>c\<in>set pre. \<not> used_slots c < max_slots c"
  shows "elect_matches e s t (pre @ rest) st = elect_matches e s t rest st"
  using assms by (induction pre) simp_all

lemma elect_matches_goes_on:
  assumes "\<forall>c'\<in>set pre. \<not> used_slots c' < max_slots c'"
    and "used_slots c < max_slots c"
    and "elect e (clock st) s c = (Inr u, k, ev0)"
    and "py_remove t (targets st) = Inr ts"
  shows "elect_matches e s t (pre @ c # post) st =
     (case elect_matches e s t post (st\<lparr>clock := k, targets := ts\<rparr>) of
        (r, st', ev') \<Rightarrow>
          (r, st',
           I_discovered (name c) (classID c) (max_slots c) (used_slots c) # ev0
             @ Removed t # ev'))"
proof -
  have "elect_matches e s t (pre @ c # post) st = elect_matches e s t (c # post) st"
    using assms(1) by (rule elect_matches_skip_full)
  then show ?thesis using assms(2,3,4) by simp
qed

lemma visit_first_attempt_raises:
  assumes "search_result e courses t = Inr (pre @ c # post)"
    and "\<forall>c'\<in>set pre. \<not> used_slots c' < max_slots c'"
    and "used_slots c < max_slots c"
    and "elect e (clock st) s c = (Inl x, k', ev0)"
  shows "visit e s courses t st =
     (Some x, st\<lparr>clock := k'\<rparr>,
      I_discovered (name c) (classID c) (max_slots c) (used_slots c) # ev0)"
proof -
  have "visit e s courses t st = elect_matches e s t (pre @ c # post) st"
    using assms(1) by (simp add: visit_def)
  also have "\<dots> = elect_matches e s t (c # post) st"
    using assms(2) by (rule elect_matches_skip_full)
  also have "\<dots> = (Some x, st\<lparr>clock := k'\<rparr>,
      I_discovered (name c) (classID c) (max_slots c) (used_slots c) # ev0)"
    using assms(3,4) by simp
  finally show ?thesis .
qed

lemma scan_first_attempt_raises:
  assumes "i < length (targets st)" and "t = targets st ! i"
    and "search_result e courses t = Inr (pre @ c # post)"
    and "\<forall>c'\<in>set pre. \<not> used_slots c' < max_slots c'"
    and "used_slots c < max_slots c"
    and "elect e (clock st) s c = (Inl x, k', ev0)"
  shows "scan e s courses i st =
     (Some x, st\<lparr>target := Some t, clock := k'\<rparr>,
      Visit t # I_discovered (name c) (classID c) (max_slots c) (used_slots c) # ev0)"
proof -
  have "elect e (clock (st\<lparr>target := Some t\<rparr>)) s c = (Inl x, k', ev0)"
    using assms(6) by simp
  then have "visit e s courses t (st\<lparr>target := Some t\<rparr>) =
     (Some x, st\<lparr>target := Some t, clock := k'\<rparr>,
      I_discovered (name c) (classID c) (max_slots c) (used_slots c) # ev0)"
    using visit_first_attempt_raises [OF assms(3,4,5), of "st\<lparr>target := Some t\<rparr>" s x k' ev0]
    by simp
  then show ?thesis
    using assms(1,2) by (simp add: scan.simps [of e s courses i st] Let_def)
qed

lemma handlers_log: "\<exists>hs. snd (snd (handlers (r, st, ev))) = ev @ hs"
  by (cases r) (auto simp: handlers_def py_remove_def split: option.splits)

lemma iteration_starts_with_fetch:
  assumes "sess st = Some s"
  shows "take (Suc (length (snd (snd (get_courses e (clock st) s))))) (snd (snd (iteration e st)))
     = D_refresh # snd (snd (get_courses e (clock st) s))"
proof -
  obtain rc k evc where g: "get_courses e (clock st) s = (rc, k, evc)"
    by (cases "get_courses e (clock st) s") auto
  obtain r1 st1 ev1 where tb: "try_block e s st = (r1, st1, ev1)"
    by (cases "try_block e s st") auto
  have "\<exists>rest. ev1 = evc @ rest"
    using g tb by (cases rc) (auto simp: try_block_def split: prod.splits)
  then obtain rest where ev1: "ev1 = evc @ rest" by blast
  obtain r2 st2 ev2 where h: "handlers (r1, st1, ev1) = (r2, st2, ev2)"
    by (cases "handlers (r1, st1, ev1)") auto
  obtain hs where ev2: "ev2 = ev1 @ hs"
    using handlers_log [of r1 st1 ev1] h by auto
  show ?thesis
    using assms g tb h ev1 ev2 by (cases r2) (simp_all add: iteration_def)
qed

lemma main_loop_after_login:
  assumes "session_expired st" and "targets st \<noteq> []"
    and "get_elective_session e (clock st) u p = (Inr s', k, ev0)"
  shows "s' = new_session (clock st)"
    and "main_loop (Suc n) e u p st =
      (case iteration e (st\<lparr>sess := Some s', session_expired := False, clock := k\<rparr>) of
         (Some x, st2, ev2) \<Rightarrow> (Caught x, st2, ev0 @ I_got_session # ev2)
       | (None, st2, ev2) \<Rightarrow>
           (case main_loop n e u p st2 of
              (r, st3, ev3) \<Rightarrow> (r, st3, ev0 @ I_got_session # ev2 @ ev3)))"
proof -
  show "s' = new_session (clock st)"
    using assms(3)
    by (auto simp: get_elective_session_def Let_def
        split: prod.splits sum.splits reply.splits if_splits)
  let ?st = "st\<lparr>sess := Some s', session_expired := False, clock := k\<rparr>"
  have idle: "login_loop n e u p ?st = (Continue, ?st, [])"
    by (cases n) simp_all
  have "login_loop (Suc n) e u p st = (Continue, ?st, ev0 @ [I_got_session])"
    using assms(1,3) idle by simp
  then show "main_loop (Suc n) e u p st =
      (case iteration e ?st of
         (Some x, st2, ev2) \<Rightarrow> (Caught x, st2, ev0 @ I_got_session # ev2)
       | (None, st2, ev2) \<Rightarrow>
           (case main_loop n e u p st2 of
              (r, st3, ev3) \<Rightarrow> (r, st3, ev0 @ I_got_session # ev2 @ ev3)))"
    using assms(2)
    by (simp del: login_loop.simps split: prod.splits option.splits)
qed

subsection \<open>A scan that removes nothing\<close>

lemma visited_append: "visited (xs @ ys) = visited xs @ visited ys"
  by (induction xs rule: visited.induct) simp_all

lemma quiet_visited:
  assumes "\<forall>u. Visit u \<notin> set ev"
  shows "visited ev = []"
  using assms
proof (induction ev rule: visited.induct)
  case 1
  show ?case by simp
next
  case (2 t ev)
  then have False by (metis list.set_intros(1))
  then show ?case ..
qed (simp_all)

lemma elect_matches_no_removal:
  assumes "removed (snd (snd (elect_matches e s t rs st))) = []"
  shows "targets (fst (snd (elect_matches e s t rs st))) = targets st"
  using assms
proof (induction rs arbitrary: st)
  case Nil
  show ?case by simp
next
  case (Cons c cs)
  show ?case
  proof (cases "used_slots c < max_slots c")
    case False
    then show ?thesis using Cons.IH [of st] Cons.prems by simp
  next
    case True
    obtain ro k ev0 where el: "elect e (clock st) s c = (ro, k, ev0)"
      by (cases "elect e (clock st) s c") auto
    show ?thesis
    proof (cases ro)
      case (Inl x)
      then show ?thesis using True el by simp
    next
      case (Inr u)
      show ?thesis
      proof (cases "py_remove t (targets st)")
        case (Inl x)
        then show ?thesis using True el Inr by simp
      next
        case rm: (Inr ts)
        have "removed (snd (snd (elect_matches e s t (c # cs) st))) \<noteq> []"
          using True el Inr rm by (simp add: removed_append split: prod.splits)
        then show ?thesis using Cons.prems by simp
      qed
    qed
  qed
qed

lemma visit_no_removal:
  assumes "removed (snd (snd (visit e s courses t st))) = []"
  shows "targets (fst (snd (visit e s courses t st))) = targets st"
proof (cases "search_result e courses t")
  case (Inl x)
  then show ?thesis by (simp add: visit_def)
next
  case (Inr rs)
  show ?thesis
  proof (cases "rs = []")
    case False
    then show ?thesis
      using Inr assms elect_matches_no_removal [of e s t rs st] by (simp add: visit_def)
  next
    case True
    then show ?thesis using Inr assms
      by (cases "py_remove t (targets st)") (simp_all add: visit_def)
  qed
qed

lemma scan_visits_all:
  "fst (scan e s courses i st) = None \<and> removed (snd (snd (scan e s courses i st))) = []
   \<longrightarrow> visited (snd (snd (scan e s courses i st))) = drop i (targets st)"
proof (induction e s courses i st rule: scan.induct)
  case (1 e s courses i st)
  show ?case
  proof (cases "i < length (targets st)")
    case False
    then show ?thesis by simp
  next
    case True
    let ?t = "targets st ! i"
    obtain r st1 ev where v: "visit e s courses ?t (st\<lparr>target := Some ?t\<rparr>) = (r, st1, ev)"
      by (cases "visit e s courses ?t (st\<lparr>target := Some ?t\<rparr>)") auto
    show ?thesis
    proof (cases r)
      case (Some x)
      then show ?thesis using True v by (simp add: scan.simps [of e s courses i st])
    next
      case None
      obtain r2 st2 ev2 where sc: "scan e s courses (Suc i) st1 = (r2, st2, ev2)"
        by (cases "scan e s courses (Suc i) st1") auto
      have eq: "scan e s courses i st = (r2, st2, Visit ?t # ev @ ev2)"
        using True v None sc by (simp add: scan.simps [of e s courses i st])
      have ih: "fst (scan e s courses (Suc i) st1) = None
          \<and> removed (snd (snd (scan e s courses (Suc i) st1))) = []
        \<longrightarrow> visited (snd (snd (scan e s courses (Suc i) st1))) = drop (Suc i) (targets st1)"
        by (rule "1.IH" [of ?t None "(st1, ev)" st1 ev]) (use True v None in simp_all)
      show ?thesis
      proof (intro impI)
        assume a: "fst (scan e s courses i st) = None
            \<and> removed (snd (snd (scan e s courses i st))) = []"
        then have r2: "r2 = None" and re: "removed ev = []" and re2: "removed ev2 = []"
          using eq by (simp_all add: removed_append)
        have "targets st1 = targets st"
          using visit_no_removal [of e s courses ?t "st\<lparr>target := Some ?t\<rparr>"] v re by simp
        moreover have "visited ev2 = drop (Suc i) (targets st1)"
          using ih sc r2 re2 by simp
        moreover have "visited ev = []"
          using visit_shape [where e = e and s = s and courses = courses and t = ?t
              and st = "st\<lparr>target := Some ?t\<rparr>"] v
          by (simp add: quiet_visited)
        ultimately show "visited (snd (snd (scan e s courses i st))) = drop i (targets st)"
          using eq True by (simp add: visited_append Cons_nth_drop_Suc)
      qed
    qed
  qed
qed

lemma scan_first_visit:
  assumes "targets st \<noteq> []"
  shows "take 1 (snd (snd (scan e s courses 0 st))) = [Visit (targets st ! 0)]"
proof -
  let ?t = "targets st ! 0"
  have i: "0 < length (targets st)" using assms by simp
  obtain r st1 ev where v: "visit e s courses ?t (st\<lparr>target := Some ?t\<rparr>) = (r, st1, ev)"
    by (cases "visit e s courses ?t (st\<lparr>target := Some ?t\<rparr>)") auto
  show ?thesis
  proof (cases r)
    case (Some x)
    then show ?thesis using i v by (simp add: scan.simps [of e s courses 0 st])
  next
    case None
    obtain r2 st2 ev2 where sc: "scan e s courses (Suc 0) st1 = (r2, st2, ev2)"
      by (cases "scan e s courses (Suc 0) st1") auto
    show ?thesis using i v None sc by (simp add: scan.simps [of e s courses 0 st])
  qed
qed

section \<open>The claims\<close>

text \<open>
  C1. In every run of the election loop, each removal from the working list takes one
  entry (what is removed and what is left make up the initial list, so no entry goes
  twice), and it comes directly after the log record of a terminal outcome for the
  target removed: not found, elected, or refused. The records of a network failure or
  an expired session are not of that kind, so neither is followed by a removal, and a
  target not recorded as removed is still in the list.
\<close>

theorem main_removals_justified:
  "case main fuel e username password rows of (r, st, ev) \<Rightarrow>
     justified ev \<and> mset rows = mset (targets st) + mset (removed ev)"
proof -
  obtain r st ev where m: "main_loop fuel e username password (initial rows) = (r, st, ev)"
    by (cases "main_loop fuel e username password (initial rows)") auto
  have "justified ev" "mset rows = mset (targets st) + mset (removed ev)"
    using main_loop_inv [where n = fuel and e = e and u = username and p = password
        and st = "initial rows"] m
    by (simp_all add: initial_def)
  then show ?thesis using m by (simp add: main_def justified_Cons)
qed

theorem main_removals_justified_witness:
  "justified (snd (snd (main 2 happy_portal ''id'' ''pw'' [intro_cs])))
   \<and> mset [intro_cs] = mset (targets (fst (snd (main 2 happy_portal ''id'' ''pw'' [intro_cs]))))
       + mset (removed (snd (snd (main 2 happy_portal ''id'' ''pw'' [intro_cs]))))"
  using main_removals_justified [where fuel = 2 and e = happy_portal and username = "''id''"
      and password = "''pw''" and rows = "[intro_cs]"]
  by (simp add: case_prod_beta)

text \<open>
  C2, as the code has it. Each time the scan of an iteration reaches a target, it
  makes election attempts for the matching courses whose filled count is below
  their capacity, one attempt for each, in the order of the directory and starting
  with the first. It goes on to the next such course after an attempt and the
  removal of the target have returned, and it stops before the last of them only
  when an exception is raised. So at least one attempt is made when there is such a
  course, exactly one when there is exactly one, at most one for each, and one for
  every such course when the visit ends without an exception.
\<close>

theorem visit_attempts:
  assumes "search_result e courses t = Inr rs"
  shows "(length [c \<leftarrow> rs. used_slots c < max_slots c] = 1
            \<longrightarrow> attempts (snd (snd (visit e s courses t st))) = 1)
       \<and> (1 \<le> length [c \<leftarrow> rs. used_slots c < max_slots c]
            \<longrightarrow> 1 \<le> attempts (snd (snd (visit e s courses t st))))
       \<and> attempts (snd (snd (visit e s courses t st)))
            \<le> length [c \<leftarrow> rs. used_slots c < max_slots c]
       \<and> announced (snd (snd (visit e s courses t st)))
            = map label (take (attempts (snd (snd (visit e s courses t st))))
                [c \<leftarrow> rs. used_slots c < max_slots c])
       \<and> (fst (visit e s courses t st) = None
            \<longrightarrow> attempts (snd (snd (visit e s courses t st)))
                = length [c \<leftarrow> rs. used_slots c < max_slots c])
       \<and> ((\<forall>c'\<in>set pre. \<not> used_slots c' < max_slots c') \<and> used_slots c < max_slots c
            \<and> elect e (clock st2) s c = (Inr u, k, ev0) \<and> py_remove t (targets st2) = Inr ts
          \<longrightarrow> elect_matches e s t (pre @ c # post) st2 =
                (case elect_matches e s t post (st2\<lparr>clock := k, targets := ts\<rparr>) of
                   (r, st', ev') \<Rightarrow>
                     (r, st',
                      I_discovered (name c) (classID c) (max_slots c) (used_slots c) # ev0
                        @ Removed t # ev')))"
proof (cases "rs = []")
  case True
  have "attempts (snd (snd (visit e s courses t st))) = 0
      \<and> announced (snd (snd (visit e s courses t st))) = []"
    using assms True by (simp add: visit_def attempts_def split: sum.splits)
  then show ?thesis
    using True elect_matches_goes_on [of pre c e st2 s u k ev0 t ts post] by simp
next
  case False
  then have v: "visit e s courses t st = elect_matches e s t rs st"
    using assms by (simp add: visit_def)
  obtain r st' ev where em: "elect_matches e s t rs st = (r, st', ev)"
    by (cases "elect_matches e s t rs st") auto
  have "length [c \<leftarrow> rs. used_slots c < max_slots c] = 1
            \<longrightarrow> attempts (snd (snd (visit e s courses t st))) = 1"
    and "1 \<le> length [c \<leftarrow> rs. used_slots c < max_slots c]
            \<longrightarrow> 1 \<le> attempts (snd (snd (visit e s courses t st)))"
    and "attempts (snd (snd (visit e s courses t st)))
            \<le> length [c \<leftarrow> rs. used_slots c < max_slots c]"
    and "announced (snd (snd (visit e s courses t st)))
            = map label (take (attempts (snd (snd (visit e s courses t st))))
                [c \<leftarrow> rs. used_slots c < max_slots c])"
    and "fst (visit e s courses t st) = None
            \<longrightarrow> attempts (snd (snd (visit e s courses t st)))
                = length [c \<leftarrow> rs. used_slots c < max_slots c]"
    using elect_matches_attempts [of e s t rs st]
      elect_matches_announced [where e = e and s = s and t = t and rs = rs and st = st] em
    unfolding v by auto
  then show ?thesis
    using elect_matches_goes_on [of pre c e st2 s u k ev0 t ts post] by blast
qed

theorem visit_attempts_witness:
  "search_result two_elections_portal [offering ''Intro CS'' ''7'' ''CS'' 50 49, offering ''Intro CS'' ''07'' ''CS'' 50 49] intro_cs
     = Inr [offering ''Intro CS'' ''7'' ''CS'' 50 49, offering ''Intro CS'' ''07'' ''CS'' 50 49]
   \<and> visit two_elections_portal (new_session 0) [offering ''Intro CS'' ''7'' ''CS'' 50 49, offering ''Intro CS'' ''07'' ''CS'' 50 49] intro_cs
       (logged_in [intro_cs, intro_cs])
     = (None,
        \<lparr> targets = [], target = None, sess = Some (new_session 0), session_expired = False,
          clock = 6 \<rparr>,
        [I_discovered ''Intro CS'' ''7'' 50 49, I_attempt_elect ''Intro CS'',
         D_attempt_captcha, I_elected ''Intro CS'', Removed intro_cs,
         I_discovered ''Intro CS'' ''07'' 50 49, I_attempt_elect ''Intro CS'',
         D_attempt_captcha, I_elected ''Intro CS'', Removed intro_cs])
   \<and> attempts (snd (snd (visit two_elections_portal (new_session 0) [offering ''Intro CS'' ''7'' ''CS'' 50 49, offering ''Intro CS'' ''07'' ''CS'' 50 49]
        intro_cs (logged_in [intro_cs, intro_cs])))) = 2
   \<and> elect two_elections_portal 0 (new_session 0) (offering ''Intro CS'' ''7'' ''CS'' 50 49)
     = (Inr (), 3, [I_attempt_elect ''Intro CS'', D_attempt_captcha, I_elected ''Intro CS''])
   \<and> elect_matches two_elections_portal (new_session 0) intro_cs [offering ''Intro CS'' ''7'' ''CS'' 50 49, offering ''Intro CS'' ''07'' ''CS'' 50 49]
        (logged_in [intro_cs, intro_cs])
     = (case elect_matches two_elections_portal (new_session 0) intro_cs
               [offering ''Intro CS'' ''07'' ''CS'' 50 49]
               ((logged_in [intro_cs, intro_cs])\<lparr>clock := 3, targets := [intro_cs]\<rparr>) of
          (r, st', ev') \<Rightarrow>
            (r, st',
             I_discovered ''Intro CS'' ''7'' 50 49
               # [I_attempt_elect ''Intro CS'', D_attempt_captcha, I_elected ''Intro CS'']
               @ Removed intro_cs # ev'))"
proof -
  let ?dir = "[offering ''Intro CS'' ''7'' ''CS'' 50 49, offering ''Intro CS'' ''07'' ''CS'' 50 49]"
  have h: "search_result two_elections_portal ?dir intro_cs = Inr ?dir"
    by (simp add: fixture_defs program_defs)
  have v: "visit two_elections_portal (new_session 0) ?dir intro_cs (logged_in [intro_cs, intro_cs])
     = (None,
        \<lparr> targets = [], target = None, sess = Some (new_session 0), session_expired = False,
          clock = 6 \<rparr>,
        [I_discovered ''Intro CS'' ''7'' 50 49, I_attempt_elect ''Intro CS'',
         D_attempt_captcha, I_elected ''Intro CS'', Removed intro_cs,
         I_discovered ''Intro CS'' ''07'' 50 49, I_attempt_elect ''Intro CS'',
         D_attempt_captcha, I_elected ''Intro CS'', Removed intro_cs])"
    by (simp add: fixture_defs program_defs numeral_3_eq_3)
  have "fst (visit two_elections_portal (new_session 0) ?dir intro_cs
      (logged_in [intro_cs, intro_cs])) = None"
    using v by simp
  then have "attempts (snd (snd (visit two_elections_portal (new_session 0) ?dir intro_cs
        (logged_in [intro_cs, intro_cs]))))
      = length [c \<leftarrow> ?dir. used_slots c < max_slots c]"
    using visit_attempts [OF h, where s = "new_session 0"
        and st = "logged_in [intro_cs, intro_cs]"]
    by blast
  moreover have g: "(\<forall>c'\<in>set []. \<not> used_slots c' < max_slots c')
      \<and> used_slots (offering ''Intro CS'' ''7'' ''CS'' 50 49)
          < max_slots (offering ''Intro CS'' ''7'' ''CS'' 50 49)
      \<and> elect two_elections_portal (clock (logged_in [intro_cs, intro_cs])) (new_session 0)
          (offering ''Intro CS'' ''7'' ''CS'' 50 49)
        = (Inr (), 3, [I_attempt_elect ''Intro CS'', D_attempt_captcha, I_elected ''Intro CS''])
      \<and> py_remove intro_cs (targets (logged_in [intro_cs, intro_cs])) = Inr [intro_cs]"
    by (simp add: fixture_defs program_defs numeral_3_eq_3)
  moreover note visit_attempts [OF h, where s = "new_session 0"
      and ?st2.0 = "logged_in [intro_cs, intro_cs]" and pre = "[]"
      and c = "offering ''Intro CS'' ''7'' ''CS'' 50 49"
      and post = "[offering ''Intro CS'' ''07'' ''CS'' 50 49]" and u = "()" and k = 3
      and ?ev0.0 = "[I_attempt_elect ''Intro CS'', D_attempt_captcha, I_elected ''Intro CS'']"
      and ts = "[intro_cs]",
      THEN conjunct2, THEN conjunct2, THEN conjunct2, THEN conjunct2, THEN conjunct2,
      THEN mp, OF g]
  ultimately show ?thesis using h v by (simp add: offering_def logged_in_def del: elect_matches.simps)
qed

text \<open>
  C2 as stated fails in both directions. With two targets that each have a free
  place, the iteration ends when the page after the first attempt has no message,
  and no attempt is made for the second target. With a directory that lists the
  course of a target twice, two attempts are made for that target.
\<close>

theorem attempts_not_exactly_one:
  "fst (get_courses expiring_portal 0 (new_session 0))
     = Inr [offering ''Intro CS'' ''7'' ''CS'' 50 49, offering ''Algebra'' ''1'' ''Math'' 30 10]
   \<and> search_result expiring_portal [offering ''Intro CS'' ''7'' ''CS'' 50 49,
                     offering ''Algebra'' ''1'' ''Math'' 30 10] algebra
       = Inr [offering ''Algebra'' ''1'' ''Math'' 30 10]
   \<and> iteration expiring_portal (logged_in [intro_cs, algebra])
       = (None,
          \<lparr> targets = [intro_cs, algebra], target = Some intro_cs, sess = Some (new_session 0),
            session_expired = True, clock = 4 \<rparr>,
          [D_refresh, D_attempt_courses, Visit intro_cs,
           I_discovered ''Intro CS'' ''7'' 50 49, I_attempt_elect ''Intro CS'',
           D_attempt_captcha, W_session_expired, Sleep 10])
   \<and> iteration duplicate_portal (logged_in [intro_cs])
       = (Some ValueError,
          \<lparr> targets = [], target = Some intro_cs, sess = Some (new_session 0),
            session_expired = False, clock = 7 \<rparr>,
          [D_refresh, D_attempt_courses, Visit intro_cs,
           I_discovered ''Intro CS'' ''7'' 50 49, I_attempt_elect ''Intro CS'',
           D_attempt_captcha, I_elected ''Intro CS'', Removed intro_cs,
           I_discovered ''Intro CS'' ''07'' 50 49, I_attempt_elect ''Intro CS'',
           D_attempt_captcha, I_elected ''Intro CS''])"
  by (simp add: fixture_defs program_defs scan.simps numeral_3_eq_3)

text \<open>
  C6. For a target whose section identifier \<^verbatim>\<open>int()\<close> accepts, and a directory in
  which it accepts those of the courses of the target's name, the matcher selects exactly
  the courses whose name, section identifier and department equal the target's, the
  section identifiers compared as integers. A course with \<^verbatim>\<open>classID\<close> \<open>''7''\<close>
  matches a target with \<^verbatim>\<open>classID\<close> \<open>''07''\<close>.
\<close>

theorem search_result_selects:
  assumes "py_int e (t_classID t) = Inr b"
    and "\<forall>c\<in>set courses. name c = courseName t \<longrightarrow> (\<exists>a. py_int e (classID c) = Inr a)"
  shows "search_result e courses t =
           Inr [c \<leftarrow> courses. name c = courseName t
                  \<and> py_int e (classID c) = py_int e (t_classID t)
                  \<and> college c = t_college t]
         \<and> (name c7 = courseName t07 \<and> college c7 = t_college t07
              \<and> classID c7 = ''7'' \<and> t_classID t07 = ''07''
              \<longrightarrow> search_result e [c7] t07 = Inr [c7])"
proof
  show "search_result e courses t =
           Inr [c \<leftarrow> courses. name c = courseName t
                  \<and> py_int e (classID c) = py_int e (t_classID t)
                  \<and> college c = t_college t]"
    using search_result_filter [OF assms] assms(1) by simp
next
  have "py_int e ''7'' = Inr 7" "py_int e ''07'' = Inr 7"
    by (simp_all add: py_int_def int_digits_def too_many_digits_def is_ascii_def strip_def
        is_space_def is_digit_def digit_val_def)
  then show "name c7 = courseName t07 \<and> college c7 = t_college t07
       \<and> classID c7 = ''7'' \<and> t_classID t07 = ''07''
       \<longrightarrow> search_result e [c7] t07 = Inr [c7]"
    by (simp add: matches_def)
qed

theorem search_result_selects_witness:
  "py_int happy_portal (t_classID intro_cs) = Inr 7
   \<and> search_result happy_portal [offering ''Algebra'' ''1'' ''Math'' 30 10,
                     offering ''Intro CS'' ''7'' ''CS'' 50 49,
                     offering ''Intro CS'' ''8'' ''CS'' 50 49] intro_cs
       = Inr [offering ''Intro CS'' ''7'' ''CS'' 50 49]
   \<and> classID (offering ''Intro CS'' ''7'' ''CS'' 50 49) = ''7''
   \<and> t_classID intro_cs = ''07''
   \<and> search_result happy_portal [offering ''Intro CS'' ''7'' ''CS'' 50 49] intro_cs
       = Inr [offering ''Intro CS'' ''7'' ''CS'' 50 49]"
proof -
  have h1: "py_int happy_portal (t_classID intro_cs) = Inr 7"
    by (simp add: fixture_defs program_defs)
  have h2: "\<forall>c\<in>set [offering ''Algebra'' ''1'' ''Math'' 30 10,
                      offering ''Intro CS'' ''7'' ''CS'' 50 49,
                      offering ''Intro CS'' ''8'' ''CS'' 50 49].
      name c = courseName intro_cs \<longrightarrow> (\<exists>a. py_int happy_portal (classID c) = Inr a)"
    by (simp add: fixture_defs program_defs)
  show ?thesis
    using h1 search_result_selects [OF h1 h2,
        where ?c7.0 = "offering ''Intro CS'' ''7'' ''CS'' 50 49" and ?t07.0 = intro_cs]
    by (simp add: fixture_defs program_defs)
qed

text \<open>
  C7. A matching course is tried exactly when its filled count is below its
  capacity: the loop over the matches makes no election attempt if and only if no
  match has a free place, and every course it announces an attempt for has one.
  When every match is full (filled equals capacity), the visit of the target makes
  no attempt, writes nothing and leaves the working list as it is, so the target
  stays pending.
\<close>

theorem electable_iff_free_place:
  "(attempts (snd (snd (elect_matches e s t rs st))) = 0
      \<longleftrightarrow> (\<forall>c\<in>set rs. \<not> used_slots c < max_slots c))
   \<and> (I_discovered n cid m u \<in> set (snd (snd (elect_matches e s t rs st))) \<longrightarrow> u < m)
   \<and> (search_result e courses t = Inr rs \<and> rs \<noteq> []
        \<and> (\<forall>c\<in>set rs. used_slots c = max_slots c)
      \<longrightarrow> visit e s courses t st = (None, st, []))"
proof (intro conjI)
  show "I_discovered n cid m u \<in> set (snd (snd (elect_matches e s t rs st))) \<longrightarrow> u < m"
    using elect_matches_discovered by blast
next
  show "attempts (snd (snd (elect_matches e s t rs st))) = 0
      \<longleftrightarrow> (\<forall>c\<in>set rs. \<not> used_slots c < max_slots c)"
  proof
    assume z: "attempts (snd (snd (elect_matches e s t rs st))) = 0"
    have "[c \<leftarrow> rs. used_slots c < max_slots c] = []"
      using elect_matches_attempts [of e s t rs st] z by auto
    then show "\<forall>c\<in>set rs. \<not> used_slots c < max_slots c"
      by (simp add: filter_empty_conv)
  next
    assume "\<forall>c\<in>set rs. \<not> used_slots c < max_slots c"
    then show "attempts (snd (snd (elect_matches e s t rs st))) = 0"
      by (simp add: elect_matches_none attempts_def)
  qed
next
  show "search_result e courses t = Inr rs \<and> rs \<noteq> []
        \<and> (\<forall>c\<in>set rs. used_slots c = max_slots c)
      \<longrightarrow> visit e s courses t st = (None, st, [])"
    by (simp add: visit_def elect_matches_none)
qed

theorem electable_iff_free_place_witness:
  "search_result happy_portal [offering ''Intro CS'' ''7'' ''CS'' 50 50] intro_cs
     = Inr [offering ''Intro CS'' ''7'' ''CS'' 50 50]
   \<and> used_slots (offering ''Intro CS'' ''7'' ''CS'' 50 50)
       = max_slots (offering ''Intro CS'' ''7'' ''CS'' 50 50)
   \<and> visit happy_portal (new_session 0) [offering ''Intro CS'' ''7'' ''CS'' 50 50] intro_cs
       (logged_in [intro_cs]) = (None, logged_in [intro_cs], [])
   \<and> attempts (snd (snd (elect_matches happy_portal (new_session 0) intro_cs
        [offering ''Intro CS'' ''7'' ''CS'' 50 50] (logged_in [intro_cs])))) = 0"
proof -
  have h: "search_result happy_portal [offering ''Intro CS'' ''7'' ''CS'' 50 50] intro_cs
     = Inr [offering ''Intro CS'' ''7'' ''CS'' 50 50]"
    by (simp add: fixture_defs program_defs)
  have f: "\<forall>c\<in>set [offering ''Intro CS'' ''7'' ''CS'' 50 50]. used_slots c = max_slots c"
    by (simp add: offering_def)
  show ?thesis
    using h f electable_iff_free_place [where e = happy_portal and s = "new_session 0"
        and t = intro_cs and rs = "[offering ''Intro CS'' ''7'' ''CS'' 50 50]"
        and st = "logged_in [intro_cs]"
        and courses = "[offering ''Intro CS'' ''7'' ''CS'' 50 50]"]
    by (simp add: offering_def)
qed

text \<open>
  C3. Once the challenge is solved and the election request is answered, the outcome
  of \<^verbatim>\<open>elect\<close> is decided by the message of the page alone: no message gives
  \<^verbatim>\<open>SessionExpiredError\<close>, a message with the confirmation marker gives success, any
  other message gives \<^verbatim>\<open>IllegalOperationError\<close>. And \<^verbatim>\<open>elect\<close> succeeds exactly
  when there is a message and it contains the marker.
\<close>

theorem elect_classification:
  "(solve_captcha (recursion_limit e) e k s = (Inr u, k1, ev)
      \<and> net e k1 (GET (Some s) (elect_address c) []) = Reply resp
    \<longrightarrow> fst (elect e k s c) =
          (case msgTips resp of
             None \<Rightarrow> Inl SessionExpiredError
           | Some msg \<Rightarrow>
               if contains success_marker msg then Inr () else Inl IllegalOperationError))
   \<and> (fst (elect e k s c) = Inr () \<longleftrightarrow>
        (\<exists>k1 ev resp msg. solve_captcha (recursion_limit e) e k s = (Inr (), k1, ev)
           \<and> net e k1 (GET (Some s) (elect_address c) []) = Reply resp
           \<and> msgTips resp = Some msg \<and> contains success_marker msg))"
proof
  show "solve_captcha (recursion_limit e) e k s = (Inr u, k1, ev)
      \<and> net e k1 (GET (Some s) (elect_address c) []) = Reply resp
    \<longrightarrow> fst (elect e k s c) =
          (case msgTips resp of
             None \<Rightarrow> Inl SessionExpiredError
           | Some msg \<Rightarrow>
               if contains success_marker msg then Inr () else Inl IllegalOperationError)"
    by (auto simp: elect_def split: option.splits)
next
  obtain r k1 ev where sc: "solve_captcha (recursion_limit e) e k s = (r, k1, ev)"
    by (cases "solve_captcha (recursion_limit e) e k s") auto
  show "fst (elect e k s c) = Inr () \<longleftrightarrow>
        (\<exists>k1 ev resp msg. solve_captcha (recursion_limit e) e k s = (Inr (), k1, ev)
           \<and> net e k1 (GET (Some s) (elect_address c) []) = Reply resp
           \<and> msgTips resp = Some msg \<and> contains success_marker msg)"
    using sc
    by (cases r; cases "net e k1 (GET (Some s) (elect_address c) [])")
       (auto simp: elect_def split: option.splits)
qed

theorem elect_classification_witness:
  "solve_captcha (recursion_limit (attempt_portal (html_reply None (Some ''full''))))
     (attempt_portal (html_reply None (Some ''full''))) 0 (new_session 0)
     = (Inr (), 2, [D_attempt_captcha])
   \<and> fst (elect (attempt_portal (html_reply None (Some ''full''))) 0 (new_session 0)
        (offering ''Intro CS'' ''7'' ''CS'' 50 49)) = Inl IllegalOperationError"
proof -
  let ?e = "attempt_portal (html_reply None (Some ''full''))"
  let ?c = "offering ''Intro CS'' ''7'' ''CS'' 50 49"
  let ?resp = "\<lparr> status_code = 200, content = [], json = None, datagrid = None,
                 msgTips = Some ''full'' \<rparr>"
  have h1: "solve_captcha (recursion_limit ?e) ?e 0 (new_session 0) = (Inr (), 2, [D_attempt_captcha])"
    by (simp add: fixture_defs numeral_3_eq_3 numeral_2_eq_2)
  have h2: "net ?e 2 (GET (Some (new_session 0)) (elect_address ?c) []) = Reply ?resp"
    by (simp add: fixture_defs)
  have "fst (elect ?e 0 (new_session 0) ?c) =
          (case msgTips ?resp of
             None \<Rightarrow> Inl SessionExpiredError
           | Some msg \<Rightarrow>
               if contains success_marker msg then Inr () else Inl IllegalOperationError)"
    using elect_classification [where e = ?e and k = 0 and s = "new_session 0" and ?k1.0 = 2
        and ev = "[D_attempt_captcha]" and c = ?c and resp = ?resp and u = "()"] h1 h2
    by blast
  then show ?thesis using h1 by (simp add: success_marker_def)
qed

text \<open>
  C4. When the \<^verbatim>\<open>try\<close> block ends with \<^verbatim>\<open>SessionExpiredError\<close>, the handler
  leaves the working list as it was when the exception was raised and sets
  \<^verbatim>\<open>session_expired\<close>. The failing stage removes nothing either: a directory fetch
  that fails leaves the list of the start of the iteration, and when the first
  election attempt in the visit of a target fails, the scan ends there with the list
  as the visit found it. After the pause the loop, if targets are left, starts with
  \<^verbatim>\<open>get_elective_session\<close>; when that returns, its new session object replaces the
  old one and the next thing done is the directory fetch through the new session.
\<close>

theorem session_expired_keeps_targets:
  "(sess st = Some s \<and> try_block e s st = (Some SessionExpiredError, st1, ev)
      \<longrightarrow> iteration e st
            = (None, st1\<lparr>session_expired := True\<rparr>, D_refresh # ev @ [W_session_expired, Sleep 10])
        \<and> (targets st1 \<noteq> [] \<longrightarrow>
             take 1 (snd (snd (main_loop (Suc n) e username password
               (st1\<lparr>session_expired := True\<rparr>)))) = [D_attempt_session]))
   \<and> (fst (get_courses e (clock st) s) = Inl SessionExpiredError
      \<longrightarrow> fst (try_block e s st) = Some SessionExpiredError
        \<and> targets (fst (snd (try_block e s st))) = targets st)
   \<and> (used_slots c < max_slots c \<and> fst (elect e (clock st) s c) = Inl SessionExpiredError
      \<longrightarrow> fst (elect_matches e s t (c # cs) st) = Some SessionExpiredError
        \<and> targets (fst (snd (elect_matches e s t (c # cs) st))) = targets st)
   \<and> handlers (Some SessionExpiredError, st1, ev)
       = (None, st1\<lparr>session_expired := True\<rparr>, ev @ [W_session_expired])
   \<and> (sess st = Some s \<and> get_courses e (clock st) s = (Inl SessionExpiredError, k', evc)
      \<longrightarrow> iteration e st
            = (None, st\<lparr>clock := k', session_expired := True\<rparr>,
               D_refresh # evc @ [W_session_expired, Sleep 10]))
   \<and> (i < length (targets st) \<and> t = targets st ! i
        \<and> search_result e courses t = Inr (pre @ c # post)
        \<and> (\<forall>c'\<in>set pre. \<not> used_slots c' < max_slots c')
        \<and> used_slots c < max_slots c
        \<and> elect e (clock st) s c = (Inl SessionExpiredError, k', ev0)
      \<longrightarrow> scan e s courses i st
            = (Some SessionExpiredError, st\<lparr>target := Some t, clock := k'\<rparr>,
               Visit t # I_discovered (name c) (classID c) (max_slots c) (used_slots c) # ev0))
   \<and> (sess st = Some s \<and> get_courses e (clock st) s = (Inr courses, k, evc)
        \<and> targets st \<noteq> [] \<and> t = targets st ! 0
        \<and> search_result e courses t = Inr (pre @ c # post)
        \<and> (\<forall>c'\<in>set pre. \<not> used_slots c' < max_slots c')
        \<and> used_slots c < max_slots c
        \<and> elect e k s c = (Inl SessionExpiredError, k', ev0)
      \<longrightarrow> iteration e st
            = (None, st\<lparr>target := Some t, clock := k', session_expired := True\<rparr>,
               D_refresh # evc
                 @ Visit t # I_discovered (name c) (classID c) (max_slots c) (used_slots c) # ev0
                 @ [W_session_expired, Sleep 10]))
   \<and> (session_expired st' \<and> targets st' \<noteq> []
        \<and> get_elective_session e (clock st') username password = (Inr s', k, evl)
      \<longrightarrow> s' = new_session (clock st')
        \<and> main_loop (Suc n) e username password st' =
            (case iteration e (st'\<lparr>sess := Some s', session_expired := False, clock := k\<rparr>) of
               (Some x, st2, ev2) \<Rightarrow> (Caught x, st2, evl @ I_got_session # ev2)
             | (None, st2, ev2) \<Rightarrow>
                 (case main_loop n e username password st2 of
                    (r, st3, ev3) \<Rightarrow> (r, st3, evl @ I_got_session # ev2 @ ev3)))
        \<and> take (Suc (length (snd (snd (get_courses e k s')))))
              (snd (snd (iteration e
                 (st'\<lparr>sess := Some s', session_expired := False, clock := k\<rparr>))))
            = D_refresh # snd (snd (get_courses e k s')))"
proof (intro conjI impI)
  assume a: "sess st = Some s \<and> try_block e s st = (Some SessionExpiredError, st1, ev)"
  then show "iteration e st
      = (None, st1\<lparr>session_expired := True\<rparr>, D_refresh # ev @ [W_session_expired, Sleep 10])"
    by (simp add: iteration_def handlers_def)
  assume "targets st1 \<noteq> []"
  then show "take 1 (snd (snd (main_loop (Suc n) e username password
               (st1\<lparr>session_expired := True\<rparr>)))) = [D_attempt_session]"
    using main_loop_first [of "st1\<lparr>session_expired := True\<rparr>" n e username password]
    by simp
next
  assume g: "fst (get_courses e (clock st) s) = Inl SessionExpiredError"
  then show "fst (try_block e s st) = Some SessionExpiredError"
    by (cases "get_courses e (clock st) s") (simp add: try_block_def)
  from g show "targets (fst (snd (try_block e s st))) = targets st"
    by (cases "get_courses e (clock st) s") (simp add: try_block_def)
next
  assume a: "used_slots c < max_slots c \<and> fst (elect e (clock st) s c) = Inl SessionExpiredError"
  then show "fst (elect_matches e s t (c # cs) st) = Some SessionExpiredError"
    by (cases "elect e (clock st) s c") simp
  from a show "targets (fst (snd (elect_matches e s t (c # cs) st))) = targets st"
    by (cases "elect e (clock st) s c") simp
next
  show "handlers (Some SessionExpiredError, st1, ev)
       = (None, st1\<lparr>session_expired := True\<rparr>, ev @ [W_session_expired])"
    by (simp add: handlers_def)
next
  assume "sess st = Some s \<and> get_courses e (clock st) s = (Inl SessionExpiredError, k', evc)"
  then show "iteration e st
            = (None, st\<lparr>clock := k', session_expired := True\<rparr>,
               D_refresh # evc @ [W_session_expired, Sleep 10])"
    by (simp add: iteration_def try_block_def handlers_def)
next
  assume "i < length (targets st) \<and> t = targets st ! i
        \<and> search_result e courses t = Inr (pre @ c # post)
        \<and> (\<forall>c'\<in>set pre. \<not> used_slots c' < max_slots c')
        \<and> used_slots c < max_slots c
        \<and> elect e (clock st) s c = (Inl SessionExpiredError, k', ev0)"
  then show "scan e s courses i st
            = (Some SessionExpiredError, st\<lparr>target := Some t, clock := k'\<rparr>,
               Visit t # I_discovered (name c) (classID c) (max_slots c) (used_slots c) # ev0)"
    using scan_first_attempt_raises [of i st t e courses pre c post s SessionExpiredError k' ev0]
    by blast
next
  assume a: "sess st = Some s \<and> get_courses e (clock st) s = (Inr courses, k, evc)
        \<and> targets st \<noteq> [] \<and> t = targets st ! 0
        \<and> search_result e courses t = Inr (pre @ c # post)
        \<and> (\<forall>c'\<in>set pre. \<not> used_slots c' < max_slots c')
        \<and> used_slots c < max_slots c
        \<and> elect e k s c = (Inl SessionExpiredError, k', ev0)"
  from a have p1: "0 < length (targets (st\<lparr>clock := k\<rparr>))" by simp
  from a have p2: "t = targets (st\<lparr>clock := k\<rparr>) ! 0" by simp
  from a have p3: "search_result e courses t = Inr (pre @ c # post)" by blast
  from a have p4: "\<forall>c'\<in>set pre. \<not> used_slots c' < max_slots c'" by blast
  from a have p5: "used_slots c < max_slots c" by blast
  from a have p6: "elect e (clock (st\<lparr>clock := k\<rparr>)) s c = (Inl SessionExpiredError, k', ev0)"
    by simp
  note p = p1 p2 p3 p4 p5 p6
  have sc: "scan e s courses 0 (st\<lparr>clock := k\<rparr>)
      = (Some SessionExpiredError, st\<lparr>clock := k\<rparr>\<lparr>target := Some t, clock := k'\<rparr>,
         Visit t # I_discovered (name c) (classID c) (max_slots c) (used_slots c) # ev0)"
    by (rule scan_first_attempt_raises [OF p])
  show "iteration e st
            = (None, st\<lparr>target := Some t, clock := k', session_expired := True\<rparr>,
               D_refresh # evc
                 @ Visit t # I_discovered (name c) (classID c) (max_slots c) (used_slots c) # ev0
                 @ [W_session_expired, Sleep 10])"
    using a sc by (simp add: iteration_def try_block_def handlers_def del: scan.simps)
next
  assume a: "session_expired st' \<and> targets st' \<noteq> []
        \<and> get_elective_session e (clock st') username password = (Inr s', k, evl)"
  then have se: "session_expired st'" and ts: "targets st' \<noteq> []"
    and g: "get_elective_session e (clock st') username password = (Inr s', k, evl)"
    by simp_all
  show "s' = new_session (clock st')"
    using main_loop_after_login(1) [OF se ts g] .
  show "main_loop (Suc n) e username password st' =
            (case iteration e (st'\<lparr>sess := Some s', session_expired := False, clock := k\<rparr>) of
               (Some x, st2, ev2) \<Rightarrow> (Caught x, st2, evl @ I_got_session # ev2)
             | (None, st2, ev2) \<Rightarrow>
                 (case main_loop n e username password st2 of
                    (r, st3, ev3) \<Rightarrow> (r, st3, evl @ I_got_session # ev2 @ ev3)))"
    using main_loop_after_login(2) [OF se ts g] .
  show "take (Suc (length (snd (snd (get_courses e k s')))))
              (snd (snd (iteration e
                 (st'\<lparr>sess := Some s', session_expired := False, clock := k\<rparr>))))
            = D_refresh # snd (snd (get_courses e k s'))"
    using iteration_starts_with_fetch
      [of "st'\<lparr>sess := Some s', session_expired := False, clock := k\<rparr>" s' e]
    by simp
qed

theorem session_expired_keeps_targets_witness:
  "iteration relogin_portal (logged_in [intro_cs, algebra])
     = (None,
        \<lparr> targets = [intro_cs, algebra], target = Some intro_cs, sess = Some (new_session 0),
          session_expired = True, clock = 4 \<rparr>,
        [D_refresh, D_attempt_courses, Visit intro_cs, I_discovered ''Intro CS'' ''7'' 50 49,
         I_attempt_elect ''Intro CS'', D_attempt_captcha, W_session_expired, Sleep 10])
   \<and> get_elective_session relogin_portal 4 ''id'' ''pw''
     = (Inr (new_session 4), 6,
        [D_attempt_session, D_attempt_iaaa, D_got_iaaa, D_got_session])
   \<and> main_loop (Suc 0) relogin_portal ''id'' ''pw''
        \<lparr> targets = [intro_cs, algebra], target = Some intro_cs, sess = Some (new_session 0),
          session_expired = True, clock = 4 \<rparr>
     = (OutOfFuel,
        \<lparr> targets = [intro_cs, algebra], target = Some intro_cs, sess = Some (new_session 4),
          session_expired = False, clock = 7 \<rparr>,
        [D_attempt_session, D_attempt_iaaa, D_got_iaaa, D_got_session, I_got_session,
         D_refresh, D_attempt_courses, D_network_courses, W_network, Sleep 10])
   \<and> scan relogin_portal (new_session 0) [offering ''Intro CS'' ''7'' ''CS'' 50 49, offering ''Algebra'' ''1'' ''Math'' 30 10] 0
        ((logged_in [intro_cs, algebra])\<lparr>clock := 1\<rparr>)
     = (Some SessionExpiredError,
        \<lparr> targets = [intro_cs, algebra], target = Some intro_cs, sess = Some (new_session 0),
          session_expired = False, clock = 4 \<rparr>,
        [Visit intro_cs, I_discovered ''Intro CS'' ''7'' 50 49, I_attempt_elect ''Intro CS'',
         D_attempt_captcha])
   \<and> iteration (attempt_portal (html_reply None None)) (logged_in [intro_cs])
     = (None,
        \<lparr> targets = [intro_cs], target = None, sess = Some (new_session 0),
          session_expired = True, clock = 1 \<rparr>,
        [D_refresh, D_attempt_courses, I_parse_failed, W_session_expired, Sleep 10])
   \<and> fst (elect_matches (attempt_portal (html_reply None None)) (new_session 0) intro_cs
        [offering ''Intro CS'' ''7'' ''CS'' 50 49] (logged_in [intro_cs]))
       = Some SessionExpiredError
   \<and> targets (fst (snd (elect_matches (attempt_portal (html_reply None None)) (new_session 0)
        intro_cs [offering ''Intro CS'' ''7'' ''CS'' 50 49] (logged_in [intro_cs]))))
       = [intro_cs]"
proof -
  let ?p = "attempt_portal (html_reply None None)"
  let ?c = "offering ''Intro CS'' ''7'' ''CS'' 50 49"
  let ?dir = "[offering ''Intro CS'' ''7'' ''CS'' 50 49, offering ''Algebra'' ''1'' ''Math'' 30 10]"
  let ?st = "logged_in [intro_cs, algebra]"
  let ?st1 = "\<lparr> targets = [intro_cs, algebra], target = Some intro_cs,
          sess = Some (new_session 0), session_expired = False, clock = 4 \<rparr>"
  let ?st' = "\<lparr> targets = [intro_cs, algebra], target = Some intro_cs,
          sess = Some (new_session 0), session_expired = True, clock = 4 \<rparr>"
  let ?ev = "[D_attempt_courses, Visit intro_cs, I_discovered ''Intro CS'' ''7'' 50 49,
         I_attempt_elect ''Intro CS'', D_attempt_captcha]"
  let ?evl = "[D_attempt_session, D_attempt_iaaa, D_got_iaaa, D_got_session]"
  txt \<open>the election stage, through the whole iteration\<close>
  have h1: "sess ?st = Some (new_session 0)"
    by (simp add: logged_in_def)
  have h2: "try_block relogin_portal (new_session 0) ?st = (Some SessionExpiredError, ?st1, ?ev)"
    by (simp add: fixture_defs program_defs scan.simps numeral_3_eq_3)
  have w1: "iteration relogin_portal ?st
      = (None, ?st1\<lparr>session_expired := True\<rparr>, D_refresh # ?ev @ [W_session_expired, Sleep 10])"
    using session_expired_keeps_targets [where e = relogin_portal and s = "new_session 0"
        and st = ?st and ?st1.0 = ?st1 and ev = ?ev, THEN conjunct1, THEN mp,
        OF conjI [OF h1 h2], THEN conjunct1] .
  txt \<open>the next action\<close>
  have l1: "session_expired ?st' \<and> targets ?st' \<noteq> []
      \<and> get_elective_session relogin_portal (clock ?st') ''id'' ''pw''
          = (Inr (new_session 4), 6, ?evl)"
    by (simp add: fixture_defs program_defs)
  note next_action = session_expired_keeps_targets [where e = relogin_portal
      and st' = ?st' and username = "''id''" and password = "''pw''" and s' = "new_session 4"
      and k = 6 and evl = ?evl and n = 0,
      THEN conjunct2, THEN conjunct2, THEN conjunct2, THEN conjunct2, THEN conjunct2,
      THEN conjunct2, THEN conjunct2, THEN mp, OF l1]
  have i2: "iteration relogin_portal
        (?st'\<lparr>sess := Some (new_session 4), session_expired := False, clock := 6\<rparr>)
      = (None,
         \<lparr> targets = [intro_cs, algebra], target = Some intro_cs, sess = Some (new_session 4),
           session_expired = False, clock = 7 \<rparr>,
         [D_refresh, D_attempt_courses, D_network_courses, W_network, Sleep 10])"
    by (simp add: fixture_defs program_defs)
  have w3: "main_loop (Suc 0) relogin_portal ''id'' ''pw'' ?st'
      = (OutOfFuel,
         \<lparr> targets = [intro_cs, algebra], target = Some intro_cs, sess = Some (new_session 4),
           session_expired = False, clock = 7 \<rparr>,
         ?evl @ [I_got_session, D_refresh, D_attempt_courses, D_network_courses, W_network,
                 Sleep 10])"
    using next_action [THEN conjunct2, THEN conjunct1] i2 by simp
  txt \<open>the election stage, in the scan\<close>
  have s1: "0 < length (targets (?st\<lparr>clock := 1\<rparr>)) \<and> intro_cs = targets (?st\<lparr>clock := 1\<rparr>) ! 0
      \<and> search_result relogin_portal ?dir intro_cs = Inr ([] @ ?c # [])
      \<and> (\<forall>c'\<in>set []. \<not> used_slots c' < max_slots c')
      \<and> used_slots ?c < max_slots ?c
      \<and> elect relogin_portal (clock (?st\<lparr>clock := 1\<rparr>)) (new_session 0) ?c
          = (Inl SessionExpiredError, 4, [I_attempt_elect ''Intro CS'', D_attempt_captcha])"
    by (simp add: fixture_defs program_defs numeral_3_eq_3)
  have w4: "scan relogin_portal (new_session 0) ?dir 0 (?st\<lparr>clock := 1\<rparr>)
      = (Some SessionExpiredError, ?st\<lparr>clock := 1\<rparr>\<lparr>target := Some intro_cs, clock := 4\<rparr>,
         Visit intro_cs # I_discovered (name ?c) (classID ?c) (max_slots ?c) (used_slots ?c)
           # [I_attempt_elect ''Intro CS'', D_attempt_captcha])"
    using session_expired_keeps_targets [where e = relogin_portal and s = "new_session 0"
        and st = "?st\<lparr>clock := 1\<rparr>" and i = 0 and t = intro_cs and courses = ?dir
        and pre = "[]" and c = ?c and post = "[]" and k' = 4
        and ?ev0.0 = "[I_attempt_elect ''Intro CS'', D_attempt_captcha]",
        THEN conjunct2, THEN conjunct2, THEN conjunct2, THEN conjunct2, THEN conjunct2,
        THEN conjunct1, THEN mp, OF s1] .
  have e0: "sess ?st = Some (new_session 0)
      \<and> get_courses relogin_portal (clock ?st) (new_session 0) = (Inr ?dir, 1, [D_attempt_courses])
      \<and> targets ?st \<noteq> [] \<and> intro_cs = targets ?st ! 0
      \<and> search_result relogin_portal ?dir intro_cs = Inr ([] @ ?c # [])
      \<and> (\<forall>c'\<in>set []. \<not> used_slots c' < max_slots c')
      \<and> used_slots ?c < max_slots ?c
      \<and> elect relogin_portal 1 (new_session 0) ?c
          = (Inl SessionExpiredError, 4, [I_attempt_elect ''Intro CS'', D_attempt_captcha])"
    by (simp add: fixture_defs program_defs numeral_3_eq_3)
  have w6: "iteration relogin_portal ?st
      = (None, ?st\<lparr>target := Some intro_cs, clock := 4, session_expired := True\<rparr>,
         D_refresh # [D_attempt_courses]
           @ Visit intro_cs # I_discovered (name ?c) (classID ?c) (max_slots ?c) (used_slots ?c)
               # [I_attempt_elect ''Intro CS'', D_attempt_captcha]
           @ [W_session_expired, Sleep 10])"
    using session_expired_keeps_targets [where e = relogin_portal and s = "new_session 0"
        and st = ?st and t = intro_cs and courses = ?dir and k = 1
        and evc = "[D_attempt_courses]" and pre = "[]" and c = ?c and post = "[]" and k' = 4
        and ?ev0.0 = "[I_attempt_elect ''Intro CS'', D_attempt_captcha]",
        THEN conjunct2, THEN conjunct2, THEN conjunct2, THEN conjunct2, THEN conjunct2,
        THEN conjunct2, THEN conjunct1, THEN mp, OF e0] .
  txt \<open>the directory fetch\<close>
  have g: "sess (logged_in [intro_cs]) = Some (new_session 0)
      \<and> get_courses ?p (clock (logged_in [intro_cs])) (new_session 0)
          = (Inl SessionExpiredError, 1, [D_attempt_courses, I_parse_failed])"
    by (simp add: fixture_defs program_defs)
  have w5: "iteration ?p (logged_in [intro_cs])
      = (None, (logged_in [intro_cs])\<lparr>clock := 1, session_expired := True\<rparr>,
         D_refresh # [D_attempt_courses, I_parse_failed] @ [W_session_expired, Sleep 10])"
    using session_expired_keeps_targets [where e = ?p and s = "new_session 0"
        and st = "logged_in [intro_cs]" and k' = 1
        and evc = "[D_attempt_courses, I_parse_failed]",
        THEN conjunct2, THEN conjunct2, THEN conjunct2, THEN conjunct2,
        THEN conjunct1, THEN mp, OF g] .
  have el: "used_slots ?c < max_slots ?c
      \<and> fst (elect ?p (clock (logged_in [intro_cs])) (new_session 0) ?c) = Inl SessionExpiredError"
    by (simp add: fixture_defs program_defs numeral_3_eq_3)
  note third = session_expired_keeps_targets [where e = ?p and s = "new_session 0"
      and st = "logged_in [intro_cs]" and c = ?c and t = intro_cs and cs = "[]",
      THEN conjunct2, THEN conjunct2, THEN conjunct1, THEN mp, OF el]
  show ?thesis
    using w1 w6 l1 w3 w4 w5 third
    by (simp add: logged_in_def offering_def)
qed

text \<open>
  C5, as the code has it. When the election attempt made in the visit of a target
  fails with \<^verbatim>\<open>IllegalOperationError\<close>, the loop over the targets ends with that
  visit, so the targets after it are not looked at in this iteration, and the
  handler, if the target is still in the working list, removes one occurrence of it
  and nothing else. The other targets wait for the next iteration.
\<close>

theorem illegal_operation_removes_target:
  "(i < length (targets st) \<and> t = targets st ! i
     \<and> visit e s courses t (st\<lparr>target := Some t\<rparr>) = (Some IllegalOperationError, st1, ev)
     \<and> t \<in> set (targets st1)
    \<longrightarrow> scan e s courses i st = (Some IllegalOperationError, st1, Visit t # ev)
      \<and> handlers (Some IllegalOperationError, st1, pre @ Visit t # ev)
          = (None, st1\<lparr>targets := remove1 t (targets st1)\<rparr>,
             pre @ Visit t # ev @ [W_illegal (courseName t), Removed t])
      \<and> mset (targets st1) = add_mset t (mset (remove1 t (targets st1))))"
proof (intro impI, elim conjE)
  assume i: "i < length (targets st)" and t: "t = targets st ! i"
    and v: "visit e s courses t (st\<lparr>target := Some t\<rparr>) = (Some IllegalOperationError, st1, ev)"
    and mem: "t \<in> set (targets st1)"
  have tg: "target st1 = Some t"
    using visit_inv [where e = e and s = s and courses = courses and t = t
        and st = "st\<lparr>target := Some t\<rparr>"] v by simp
  have a: "scan e s courses i st = (Some IllegalOperationError, st1, Visit t # ev)"
    using i t v by (simp add: scan.simps [of e s courses i st])
  have b: "handlers (Some IllegalOperationError, st1, pre @ Visit t # ev)
          = (None, st1\<lparr>targets := remove1 t (targets st1)\<rparr>,
             pre @ Visit t # ev @ [W_illegal (courseName t), Removed t])"
    using tg mem by (simp add: handlers_def py_remove_def)
  have c: "mset (targets st1) = add_mset t (mset (remove1 t (targets st1)))"
    using mem by simp
  show "scan e s courses i st = (Some IllegalOperationError, st1, Visit t # ev)
      \<and> handlers (Some IllegalOperationError, st1, pre @ Visit t # ev)
          = (None, st1\<lparr>targets := remove1 t (targets st1)\<rparr>,
             pre @ Visit t # ev @ [W_illegal (courseName t), Removed t])
      \<and> mset (targets st1) = add_mset t (mset (remove1 t (targets st1)))"
    using a b c by blast
qed

theorem illegal_operation_removes_target_witness:
  "visit (attempt_portal (html_reply None (Some ''full''))) (new_session 0)
     [offering ''Intro CS'' ''7'' ''CS'' 50 49, offering ''Algebra'' ''1'' ''Math'' 30 10] intro_cs
     ((logged_in [intro_cs, algebra])\<lparr>target := Some intro_cs\<rparr>)
     = (Some IllegalOperationError,
        \<lparr> targets = [intro_cs, algebra], target = Some intro_cs, sess = Some (new_session 0),
          session_expired = False, clock = 3 \<rparr>,
        [I_discovered ''Intro CS'' ''7'' 50 49, I_attempt_elect ''Intro CS'',
         D_attempt_captcha, I_elect_failed ''Intro CS'' ''full''])
   \<and> handlers (scan (attempt_portal (html_reply None (Some ''full''))) (new_session 0)
        [offering ''Intro CS'' ''7'' ''CS'' 50 49, offering ''Algebra'' ''1'' ''Math'' 30 10] 0 (logged_in [intro_cs, algebra]))
     = (None,
        \<lparr> targets = [algebra], target = Some intro_cs, sess = Some (new_session 0),
          session_expired = False, clock = 3 \<rparr>,
        [Visit intro_cs, I_discovered ''Intro CS'' ''7'' 50 49, I_attempt_elect ''Intro CS'',
         D_attempt_captcha, I_elect_failed ''Intro CS'' ''full'', W_illegal ''Intro CS'',
         Removed intro_cs])"
proof -
  let ?e = "attempt_portal (html_reply None (Some ''full''))"
  let ?dir = "[offering ''Intro CS'' ''7'' ''CS'' 50 49, offering ''Algebra'' ''1'' ''Math'' 30 10]"
  let ?st = "logged_in [intro_cs, algebra]"
  let ?st1 = "\<lparr> targets = [intro_cs, algebra], target = Some intro_cs, sess = Some (new_session 0),
          session_expired = False, clock = 3 \<rparr>"
  let ?ev = "[I_discovered ''Intro CS'' ''7'' 50 49, I_attempt_elect ''Intro CS'',
         D_attempt_captcha, I_elect_failed ''Intro CS'' ''full'']"
  have h1: "0 < length (targets ?st)" by (simp add: logged_in_def)
  have h2: "intro_cs = targets ?st ! 0" by (simp add: logged_in_def)
  have h3: "visit ?e (new_session 0) ?dir intro_cs (?st\<lparr>target := Some intro_cs\<rparr>)
      = (Some IllegalOperationError, ?st1, ?ev)"
    by (simp add: fixture_defs program_defs numeral_3_eq_3)
  have h4: "intro_cs \<in> set (targets ?st1)" by simp
  have "scan ?e (new_session 0) ?dir 0 ?st = (Some IllegalOperationError, ?st1, Visit intro_cs # ?ev)
      \<and> handlers (Some IllegalOperationError, ?st1, [] @ Visit intro_cs # ?ev)
          = (None, ?st1\<lparr>targets := remove1 intro_cs (targets ?st1)\<rparr>,
             [] @ Visit intro_cs # ?ev @ [W_illegal (courseName intro_cs), Removed intro_cs])
      \<and> mset (targets ?st1) = add_mset intro_cs (mset (remove1 intro_cs (targets ?st1)))"
    using illegal_operation_removes_target [where i = 0 and st = ?st and t = intro_cs
        and e = ?e and s = "new_session 0" and courses = ?dir and ?st1.0 = ?st1 and ev = ?ev
        and pre = "[]"] h1 h2 h3 h4
    by blast
  then show ?thesis using h3 by (simp add: intro_cs_def algebra_def)
qed

text \<open>
  C5 as stated fails: after the refusal for the first target the iteration ends with
  the handler and the pause. The second target, which has a free place in the same
  directory, is not visited and no attempt is made for it.
\<close>

theorem illegal_operation_ends_iteration:
  "search_result refusing_portal [offering ''Intro CS'' ''7'' ''CS'' 50 49, offering ''Algebra'' ''1'' ''Math'' 30 10] algebra
     = Inr [offering ''Algebra'' ''1'' ''Math'' 30 10]
   \<and> iteration refusing_portal (logged_in [intro_cs, algebra])
     = (None,
        \<lparr> targets = [algebra], target = Some intro_cs, sess = Some (new_session 0),
          session_expired = False, clock = 4 \<rparr>,
        [D_refresh, D_attempt_courses, Visit intro_cs, I_discovered ''Intro CS'' ''7'' 50 49,
         I_attempt_elect ''Intro CS'', D_attempt_captcha, I_elect_failed ''Intro CS'' ''full'',
         W_illegal ''Intro CS'', Removed intro_cs, Sleep 10])"
  by (simp add: fixture_defs program_defs scan.simps numeral_3_eq_3)

text \<open>
  C8. \<^verbatim>\<open>solve_captcha\<close> turns an answer to the submission that is not JSON into
  \<^verbatim>\<open>SessionExpiredError\<close>, but two other failures leave it as they are: a request
  that fails in transport raises a \<^verbatim>\<open>RequestException\<close>, which the other functions
  of the program turn into \<^verbatim>\<open>NetworkError\<close>, and an answer that is a JSON object
  without the field \<^verbatim>\<open>valid\<close> raises \<^verbatim>\<open>KeyError\<close>. Neither is an outcome the
  claim allows, and \<^verbatim>\<open>main\<close> handles neither.
\<close>

theorem solve_captcha_other_errors:
  "fst (solve_captcha 3 (scripted []) 0 (new_session 0)) = Inl RequestException
   \<and> fst (solve_captcha 3 (scripted [html_reply None None, json_reply Map.empty]) 0
        (new_session 0))
       = Inl KeyError
   \<and> fst (iteration (scripted [html_reply (Some [row ''Intro CS'' ''7'' ''CS'' ''50/49'']) None])
        (logged_in [intro_cs]))
       = Some RequestException"
  by (simp add: fixture_defs program_defs scan.simps numeral_3_eq_3)

text \<open>
  C9. The claim holds of every login but one kind: when the answer of the identity
  provider is not JSON, \<^verbatim>\<open>r.json()\<close> raises a \<^verbatim>\<open>ValueError\<close>, which the
  \<^verbatim>\<open>except KeyError\<close> of \<^verbatim>\<open>get_iaaa_token\<close> does not take. It leaves
  \<^verbatim>\<open>get_elective_session\<close>, and the login loop of \<^verbatim>\<open>main\<close>, which handles the two
  kinds of the claim, ends the run.
\<close>

theorem login_answer_not_json:
  "fst (get_elective_session (scripted [html_reply None None]) 0 ''id'' ''pw'') = Inl ValueError
   \<and> fst (main 1 (scripted [html_reply None None]) ''id'' ''pw'' [intro_cs]) = Caught ValueError"
  by (simp add: fixture_defs program_defs)

text \<open>
  C10, as the code has it. When the visit of the target at index \<open>i\<close> removes it
  from the working list, the target that followed it takes index \<open>i\<close>, and the
  scan goes on at index \<open>i + 1\<close>, with what was the list from index \<open>i + 2\<close> on.
  In a list without repetitions the follower is therefore not visited in the rest of
  the scan, and it is still in the working list when the scan ends. Every scan
  starts with the first entry of the list, and a scan that raises nothing and
  removes nothing visits every entry, in order; so the follower is visited in the
  next iteration at least when the scan of that iteration raises nothing and removes
  nothing.
\<close>

theorem removal_skips_follower:
  assumes "Suc i < length (targets st)"
    and "t = targets st ! i"
    and "visit e s courses t (st\<lparr>target := Some t\<rparr>) = (None, st1, ev)"
    and "targets st1 = remove1 t (targets st)"
  shows "targets st1 ! i = targets st ! Suc i
       \<and> drop (Suc i) (targets st1) = drop (Suc (Suc i)) (targets st)
       \<and> scan e s courses i st =
           (case scan e s courses (Suc i) st1 of (r, st2, ev2) \<Rightarrow> (r, st2, Visit t # ev @ ev2))
       \<and> (distinct (targets st) \<longrightarrow>
            Visit (targets st ! Suc i) \<notin> set (snd (snd (scan e s courses (Suc i) st1)))
            \<and> targets st ! Suc i \<in> set (targets (fst (snd (scan e s courses (Suc i) st1)))))
       \<and> (targets st' \<noteq> [] \<longrightarrow>
            take 1 (snd (snd (scan e' s' courses' 0 st'))) = [Visit (targets st' ! 0)])
       \<and> (fst (scan e' s' courses' 0 st') = None
            \<and> removed (snd (snd (scan e' s' courses' 0 st'))) = []
          \<longrightarrow> visited (snd (snd (scan e' s' courses' 0 st'))) = targets st')"
proof -
  have n1: "targets st' \<noteq> [] \<longrightarrow>
      take 1 (snd (snd (scan e' s' courses' 0 st'))) = [Visit (targets st' ! 0)]"
    using scan_first_visit by blast
  have n2: "fst (scan e' s' courses' 0 st') = None
      \<and> removed (snd (snd (scan e' s' courses' 0 st'))) = []
    \<longrightarrow> visited (snd (snd (scan e' s' courses' 0 st'))) = targets st'"
    using scan_visits_all [of e' s' courses' 0 st'] by simp
  have i: "i < length (targets st)" using assms(1) by simp
  note at = remove1_at [OF i assms(2)]
  have a: "targets st1 ! i = targets st ! Suc i"
    using at assms(1,4) by simp
  have b: "drop (Suc i) (targets st1) = drop (Suc (Suc i)) (targets st)"
    using at assms(4) by simp
  have c: "scan e s courses i st =
      (case scan e s courses (Suc i) st1 of (r, st2, ev2) \<Rightarrow> (r, st2, Visit t # ev @ ev2))"
    using i assms(2,3) by (simp add: scan.simps [of e s courses i st])
  have d: "Visit (targets st ! Suc i) \<notin> set (snd (snd (scan e s courses (Suc i) st1)))
      \<and> targets st ! Suc i \<in> set (targets (fst (snd (scan e s courses (Suc i) st1))))"
    if dist: "distinct (targets st)"
  proof -
    let ?f = "targets st ! Suc i"
    obtain r2 st2 ev2 where sc: "scan e s courses (Suc i) st1 = (r2, st2, ev2)"
      by (cases "scan e s courses (Suc i) st1") auto
    have sh: "\<forall>u. Visit u \<in> set ev2 \<longrightarrow> u \<in> set (drop (Suc i) (targets st1))"
      "\<forall>u\<in>set (removed ev2). Visit u \<in> set ev2"
      using scan_shape [where e = e and s = s and courses = courses and i = "Suc i"
          and st = st1] sc by simp_all
    have "drop (Suc i) (targets st) = ?f # drop (Suc (Suc i)) (targets st)"
      using assms(1) by (simp add: Cons_nth_drop_Suc)
    moreover have "distinct (drop (Suc i) (targets st))" using dist by simp
    ultimately have nf: "?f \<notin> set (drop (Suc (Suc i)) (targets st))"
      by (metis distinct.simps(2))
    then have nv: "Visit ?f \<notin> set ev2" using sh(1) b by auto
    then have nr: "?f \<notin> set (removed ev2)" using sh(2) by auto
    have "?f \<noteq> t"
      using dist assms(1,2) i by (simp add: nth_eq_iff_index_eq)
    moreover have "?f \<in> set (targets st)" using assms(1) by simp
    ultimately have "?f \<in> set (targets st1)" using assms(4) by simp
    then have "?f \<in># mset (targets st1)" by simp
    moreover have "mset (targets st1) = mset (targets st2) + mset (removed ev2)"
      using scan_inv [where e = e and s = s and courses = courses and i = "Suc i"
          and st = st1] sc by simp
    ultimately have "?f \<in> set (targets st2)" using nr by auto
    then show ?thesis using nv sc by simp
  qed
  show ?thesis using a b c d n1 n2 by blast
qed

theorem removal_skips_follower_witness:
  "visit happy_portal (new_session 0) [offering ''Intro CS'' ''7'' ''CS'' 50 50, offering ''Algebra'' ''1'' ''Math'' 30 30] ghost
     ((logged_in [ghost, intro_cs, algebra])\<lparr>target := Some ghost\<rparr>)
     = (None,
        \<lparr> targets = [intro_cs, algebra], target = Some ghost, sess = Some (new_session 0),
          session_expired = False, clock = 0 \<rparr>,
        [W_not_found ''Ghost'', Removed ghost])
   \<and> scan happy_portal (new_session 0) [offering ''Intro CS'' ''7'' ''CS'' 50 50, offering ''Algebra'' ''1'' ''Math'' 30 30] 0
        (logged_in [ghost, intro_cs, algebra])
     = (None,
        \<lparr> targets = [intro_cs, algebra], target = Some algebra, sess = Some (new_session 0),
          session_expired = False, clock = 0 \<rparr>,
        [Visit ghost, W_not_found ''Ghost'', Removed ghost, Visit algebra])
   \<and> Visit intro_cs \<notin> set (snd (snd (scan happy_portal (new_session 0)
        [offering ''Intro CS'' ''7'' ''CS'' 50 50, offering ''Algebra'' ''1'' ''Math'' 30 30] (Suc 0)
        \<lparr> targets = [intro_cs, algebra], target = Some ghost, sess = Some (new_session 0),
          session_expired = False, clock = 0 \<rparr>)))
   \<and> scan happy_portal (new_session 0) [offering ''Intro CS'' ''7'' ''CS'' 50 50, offering ''Algebra'' ''1'' ''Math'' 30 30] 0
        (logged_in [intro_cs, algebra])
     = (None,
        \<lparr> targets = [intro_cs, algebra], target = Some algebra, sess = Some (new_session 0),
          session_expired = False, clock = 0 \<rparr>,
        [Visit intro_cs, Visit algebra])
   \<and> visited (snd (snd (scan happy_portal (new_session 0) [offering ''Intro CS'' ''7'' ''CS'' 50 50, offering ''Algebra'' ''1'' ''Math'' 30 30] 0
        (logged_in [intro_cs, algebra])))) = [intro_cs, algebra]"
proof -
  let ?dir = "[offering ''Intro CS'' ''7'' ''CS'' 50 50, offering ''Algebra'' ''1'' ''Math'' 30 30]"
  let ?st = "logged_in [ghost, intro_cs, algebra]"
  let ?st1 = "\<lparr> targets = [intro_cs, algebra], target = Some ghost, sess = Some (new_session 0),
          session_expired = False, clock = 0 \<rparr>"
  let ?ev = "[W_not_found ''Ghost'', Removed ghost]"
  have h1: "Suc 0 < length (targets ?st)" by (simp add: logged_in_def)
  have h2: "ghost = targets ?st ! 0" by (simp add: logged_in_def)
  have h3: "visit happy_portal (new_session 0) ?dir ghost (?st\<lparr>target := Some ghost\<rparr>)
      = (None, ?st1, ?ev)"
    by (simp add: fixture_defs program_defs)
  have h4: "targets ?st1 = remove1 ghost (targets ?st)" by (simp add: logged_in_def)
  have d: "distinct (targets ?st)" by (simp add: fixture_defs)
  have s1: "scan happy_portal (new_session 0) ?dir (Suc 0) ?st1
      = (None, ?st1\<lparr>target := Some algebra\<rparr>, [Visit algebra])"
    by (simp add: fixture_defs program_defs scan.simps)
  have s2: "scan happy_portal (new_session 0) ?dir 0 (logged_in [intro_cs, algebra])
      = (None, (logged_in [intro_cs, algebra])\<lparr>target := Some algebra\<rparr>,
         [Visit intro_cs, Visit algebra])"
    by (simp add: fixture_defs program_defs scan.simps)
  have q: "fst (scan happy_portal (new_session 0) ?dir 0 (logged_in [intro_cs, algebra])) = None
      \<and> removed (snd (snd (scan happy_portal (new_session 0) ?dir 0
            (logged_in [intro_cs, algebra])))) = []"
    using s2 by simp
  have v: "visited (snd (snd (scan happy_portal (new_session 0) ?dir 0
        (logged_in [intro_cs, algebra])))) = targets (logged_in [intro_cs, algebra])"
    using removal_skips_follower [OF h1 h2 h3 h4, where e' = happy_portal
        and s' = "new_session 0" and courses' = ?dir and st' = "logged_in [intro_cs, algebra]",
        THEN conjunct2, THEN conjunct2, THEN conjunct2, THEN conjunct2, THEN conjunct2,
        THEN mp, OF q] .
  show ?thesis
    using removal_skips_follower [OF h1 h2 h3 h4] d h3 s1 s2 v
    by (simp add: logged_in_def)
qed

text \<open>
  C10 as stated fails in its second half: the target skipped in one iteration need
  not be examined in the next. Here the third target is skipped when the second is
  removed, and in the next iteration, in which the first target is removed, it is
  skipped again.
\<close>

theorem follower_skipped_again:
  "iteration shrinking_portal (logged_in [intro_cs, ghost, algebra])
     = (None,
        \<lparr> targets = [intro_cs, algebra], target = Some ghost, sess = Some (new_session 0),
          session_expired = False, clock = 1 \<rparr>,
        [D_refresh, D_attempt_courses, Visit intro_cs, Visit ghost, W_not_found ''Ghost'',
         Removed ghost, Sleep 10])
   \<and> iteration shrinking_portal
        \<lparr> targets = [intro_cs, algebra], target = Some ghost, sess = Some (new_session 0),
          session_expired = False, clock = 1 \<rparr>
     = (None,
        \<lparr> targets = [algebra], target = Some intro_cs, sess = Some (new_session 0),
          session_expired = False, clock = 2 \<rparr>,
        [D_refresh, D_attempt_courses, Visit intro_cs, W_not_found ''Intro CS'',
         Removed intro_cs, Sleep 10])"
  by (simp add: fixture_defs program_defs scan.simps)

end
